theory Spec2Isabelle
  imports Complex_Main "HOL-Library.Product_Lexorder"
begin

section \<open>Numbers, errors and array indexing\<close>

text \<open>
  The arrays of \<^verbatim>\<open>interpolate-slow.py\<close> hold double precision numbers. They are modelled
  as exact reals together with the value not-a-number, which the program returns
  (\<^verbatim>\<open>return nan\<close>) and which propagates through every arithmetic operation. Rounding
  and the infinities are not modelled: arithmetic on finite values is exact. The
  statements that depend on rounding are made on the binary64 numbers of the section
  on double precision arithmetic.
\<close>

datatype float64 = Fin real | NaN

fun fadd :: "float64 \<Rightarrow> float64 \<Rightarrow> float64" where
  "fadd (Fin a) (Fin b) = Fin (a + b)"
| "fadd _ _ = NaN"

fun fsub :: "float64 \<Rightarrow> float64 \<Rightarrow> float64" where
  "fsub (Fin a) (Fin b) = Fin (a - b)"
| "fsub _ _ = NaN"

fun fmul :: "float64 \<Rightarrow> float64 \<Rightarrow> float64" where
  "fmul (Fin a) (Fin b) = Fin (a * b)"
| "fmul _ _ = NaN"

text \<open>Comparison \<^verbatim>\<open>a <= b\<close>: false as soon as one side is not-a-number.\<close>

fun fle :: "float64 \<Rightarrow> float64 \<Rightarrow> bool" where
  "fle (Fin a) (Fin b) = (a \<le> b)"
| "fle _ _ = False"


text \<open>The exceptions the modelled code can raise.\<close>

datatype error = IndexError | ValueError | QhullError

text \<open>
  \<^verbatim>\<open>np.take(a, i)\<close> with the default \<^verbatim>\<open>mode='raise'\<close>: an index
  in \<^verbatim>\<open>[-n, n)\<close> is accepted, a negative one counting from the end; any other index
  raises \<^verbatim>\<open>IndexError\<close>.
\<close>

definition np_take1 :: "'a list \<Rightarrow> int \<Rightarrow> error + 'a" where
  "np_take1 a i =
     (let n = int (length a); j = (if i < 0 then i + n else i)
      in if 0 \<le> j \<and> j < n then Inr (a ! nat j) else Inl IndexError)"

text \<open>A whole array of results: the first exception raised, or all the values.\<close>

fun collect :: "(error + 'a) list \<Rightarrow> error + 'a list" where
  "collect [] = Inr []"
| "collect (Inl e # rs) = Inl e"
| "collect (Inr v # rs) = (case collect rs of Inl e \<Rightarrow> Inl e | Inr vs \<Rightarrow> Inr (v # vs))"

text \<open>\<^verbatim>\<open>np.take(a, indices, axis=0)\<close> for a one-dimensional index array.\<close>

definition np_take :: "'a list \<Rightarrow> int list \<Rightarrow> error + 'a list" where
  "np_take a indices = collect (map (np_take1 a) indices)"

text \<open>
  \<^verbatim>\<open>np.take(values, vertices)\<close> for an index array of shape (K, 3): the result has the
  shape of the index array.
\<close>

definition take_row :: "'a list \<Rightarrow> int \<times> int \<times> int \<Rightarrow> error + ('a \<times> 'a \<times> 'a)" where
  "take_row a r =
     (case r of (i, j, k) \<Rightarrow>
        (case np_take1 a i of Inl e \<Rightarrow> Inl e | Inr u \<Rightarrow>
        (case np_take1 a j of Inl e \<Rightarrow> Inl e | Inr v \<Rightarrow>
        (case np_take1 a k of Inl e \<Rightarrow> Inl e | Inr w \<Rightarrow> Inr (u, v, w)))))"

definition np_take_rows :: "'a list \<Rightarrow> (int \<times> int \<times> int) list \<Rightarrow> error + ('a \<times> 'a \<times> 'a) list" where
  "np_take_rows a vertices = collect (map (take_row a) vertices)"

section \<open>The fast evaluator\<close>

text \<open>
  One term of \<^verbatim>\<open>np.einsum('nj,nj->n', a, b)\<close>: the sum over the three columns of the
  products of the entries of a row of \<^verbatim>\<open>a\<close> and a row of \<^verbatim>\<open>b\<close>.
\<close>

definition dot3 :: "float64 \<times> float64 \<times> float64 \<Rightarrow> float64 \<times> float64 \<times> float64 \<Rightarrow> float64" where
  "dot3 a b =
     (case a of (a0, a1, a2) \<Rightarrow> (case b of (b0, b1, b2) \<Rightarrow>
        fadd (fadd (fmul a0 b0) (fmul a1 b1)) (fmul a2 b2)))"

text \<open>
  \<^verbatim>\<open>np.einsum('nj,nj->n', a, b)\<close> on arrays of shape (K, 3) and (K', 3): the row counts
  must agree, except that an operand with a single row is broadcast along the other;
  otherwise \<^verbatim>\<open>ValueError\<close>.
\<close>

definition einsum_nj_nj_n ::
  "(float64 \<times> float64 \<times> float64) list \<Rightarrow> (float64 \<times> float64 \<times> float64) list \<Rightarrow> error + float64 list" where
  "einsum_nj_nj_n a b =
     (if length a = length b then Inr (map2 dot3 a b)
      else if length a = 1 then Inr (map (dot3 (hd a)) b)
      else if length b = 1 then Inr (map (\<lambda>r. dot3 r (hd b)) a)
      else Inl ValueError)"

text \<open>
  \<^verbatim>\<open>fast_interpolate(values, vertices, weights)\<close>:
  \<^verbatim>\<open>return np.einsum('nj,nj->n', np.take(values, vertices), weights)\<close>.
\<close>

definition fast_interpolate ::
  "float64 list \<Rightarrow> (int \<times> int \<times> int) list \<Rightarrow> (float64 \<times> float64 \<times> float64) list \<Rightarrow> error + float64 list" where
  "fast_interpolate values vertices weights =
     (case np_take_rows values vertices of
        Inl e \<Rightarrow> Inl e
      | Inr taken \<Rightarrow> einsum_nj_nj_n taken weights)"

section \<open>Precomputing vertices and weights\<close>

text \<open>
  \<^verbatim>\<open>scipy.spatial.qhull.Delaunay\<close> and its method \<^verbatim>\<open>find_simplex\<close> are library code.
  Of a triangulation of points in the plane the program reads two attributes:
  \<^verbatim>\<open>simplices\<close>, an integer array of shape (ntri, 3), and \<^verbatim>\<open>transform\<close>, an array of
  shape (ntri, 3, 2) whose entry for a triangle holds the two rows of the inverse
  matrix followed by the translation row.
\<close>

type_synonym point = "float64 \<times> float64"

type_synonym affine = "point \<times> point \<times> point"

record Delaunay =
  simplices :: "(int \<times> int \<times> int) list"
  transform :: "affine list"

text \<open>\<^verbatim>\<open>temp[:, 2]\<close> and \<^verbatim>\<open>temp[:, :2, :]\<close> for one triangle.\<close>

definition translation :: "affine \<Rightarrow> point" where
  "translation t = (case t of (m0, m1, r) \<Rightarrow> r)"

definition matrix :: "affine \<Rightarrow> point \<times> point" where
  "matrix t = (case t of (m0, m1, r) \<Rightarrow> (m0, m1))"

text \<open>One row of \<^verbatim>\<open>uv - temp[:, 2]\<close>.\<close>

definition sub2 :: "point \<Rightarrow> point \<Rightarrow> point" where
  "sub2 p r = (fsub (fst p) (fst r), fsub (snd p) (snd r))"

text \<open>One entry of \<^verbatim>\<open>np.einsum('njk,nk->nj', m, delta)\<close>: the sum over \<^verbatim>\<open>k\<close>.\<close>

definition row_dot :: "point \<Rightarrow> point \<Rightarrow> float64" where
  "row_dot m d = fadd (fmul (fst m) (fst d)) (fmul (snd m) (snd d))"

definition einsum_jk_k :: "point \<times> point \<Rightarrow> point \<Rightarrow> point" where
  "einsum_jk_k m d = (row_dot (fst m) d, row_dot (snd m) d)"

text \<open>One row of \<^verbatim>\<open>np.hstack((bary, 1 - bary.sum(axis=1, keepdims=True)))\<close>.\<close>

definition hstack_row :: "point \<Rightarrow> float64 \<times> float64 \<times> float64" where
  "hstack_row b = (fst b, snd b, fsub (Fin 1) (fadd (fst b) (snd b)))"

text \<open>
  \<^verbatim>\<open>construct_vertices(xy, uv)\<close>. The two library operations are parameters:
  \<^verbatim>\<open>delaunay\<close> builds the triangulation of the source points or raises, and
  \<^verbatim>\<open>find_simplex\<close> gives, for one query point, the index of a triangle containing
  it, or -1 for a point outside the triangulation.
\<close>

definition construct_vertices ::
  "(point list \<Rightarrow> error + Delaunay) \<Rightarrow> (Delaunay \<Rightarrow> point \<Rightarrow> int) \<Rightarrow> point list \<Rightarrow> point list
   \<Rightarrow> error + ((int \<times> int \<times> int) list \<times> (float64 \<times> float64 \<times> float64) list)" where
  "construct_vertices delaunay find_simplex xy uv =
     (case delaunay xy of
        Inl e \<Rightarrow> Inl e
      | Inr tri \<Rightarrow>
          (let simplex = map (find_simplex tri) uv in
           (case np_take (simplices tri) simplex of
              Inl e \<Rightarrow> Inl e
            | Inr vertices \<Rightarrow>
                (case np_take (transform tri) simplex of
                   Inl e \<Rightarrow> Inl e
                 | Inr temp \<Rightarrow>
                     (let delta = map2 sub2 uv (map translation temp);
                          bary = map2 einsum_jk_k (map matrix temp) delta
                      in Inr (vertices, map hstack_row bary))))))"

section \<open>The single point interpolation with its bounding box test\<close>

fun fmin :: "float64 \<Rightarrow> float64 \<Rightarrow> float64" where
  "fmin (Fin a) (Fin b) = Fin (min a b)"
| "fmin _ _ = NaN"

fun fmax :: "float64 \<Rightarrow> float64 \<Rightarrow> float64" where
  "fmax (Fin a) (Fin b) = Fin (max a b)"
| "fmax _ _ = NaN"

text \<open>
  \<^verbatim>\<open>np.min\<close> and \<^verbatim>\<open>np.max\<close> of an array: \<^verbatim>\<open>ValueError\<close> on an empty array;
  not-a-number as soon as one entry is.
\<close>

fun np_min :: "float64 list \<Rightarrow> error + float64" where
  "np_min [] = Inl ValueError"
| "np_min (x # xs) = Inr (fold fmin xs x)"

fun np_max :: "float64 list \<Rightarrow> error + float64" where
  "np_max [] = Inl ValueError"
| "np_max (x # xs) = Inr (fold fmax xs x)"

text \<open>
  \<^verbatim>\<open>interpolate_BC(xdata, ydata, Udata, xeval, yeval, method)\<close>. The library function
  \<^verbatim>\<open>scipy.interpolate.griddata\<close> is the parameter \<^verbatim>\<open>griddata\<close>. The conditions are
  evaluated from left to right, \<^verbatim>\<open>and\<close> stopping at the first false one.
\<close>

definition interpolate_BC ::
  "(point list \<Rightarrow> float64 list \<Rightarrow> point \<Rightarrow> string \<Rightarrow> error + float64)
   \<Rightarrow> float64 list \<Rightarrow> float64 list \<Rightarrow> float64 list \<Rightarrow> float64 \<Rightarrow> float64 \<Rightarrow> string \<Rightarrow> error + float64" where
  "interpolate_BC griddata xdata ydata Udata xeval yeval method =
     (case np_min xdata of Inl e \<Rightarrow> Inl e | Inr xlo \<Rightarrow>
        if \<not> fle xlo xeval then Inr NaN
        else (case np_max xdata of Inl e \<Rightarrow> Inl e | Inr xhi \<Rightarrow>
          if \<not> fle xeval xhi then Inr NaN
          else (case np_min ydata of Inl e \<Rightarrow> Inl e | Inr ylo \<Rightarrow>
            if \<not> fle ylo yeval then Inr NaN
            else (case np_max ydata of Inl e \<Rightarrow> Inl e | Inr yhi \<Rightarrow>
              if \<not> fle yeval yhi then Inr NaN
              else griddata (zip xdata ydata) Udata (xeval, yeval) method))))"

text \<open>The default of the keyword argument: \<^verbatim>\<open>method='cubic'\<close>.\<close>

definition interpolate_BC_default ::
  "(point list \<Rightarrow> float64 list \<Rightarrow> point \<Rightarrow> string \<Rightarrow> error + float64)
   \<Rightarrow> float64 list \<Rightarrow> float64 list \<Rightarrow> float64 list \<Rightarrow> float64 \<Rightarrow> float64 \<Rightarrow> error + float64" where
  "interpolate_BC_default griddata xdata ydata Udata xeval yeval =
     interpolate_BC griddata xdata ydata Udata xeval yeval ''cubic''"

section \<open>Removing double points\<close>

text \<open>
  \<^verbatim>\<open>np.unique(ar, return_index=True)\<close> as numpy computes it: a stable argsort of the
  flattened array, the sorted array \<^verbatim>\<open>aux = ar[perm]\<close>, the mask
  \<^verbatim>\<open>flag = concatenate(([True], aux[1:] != aux[:-1]))\<close> of the positions that start a
  run of equal values, and the result \<^verbatim>\<open>(aux[flag], perm[flag])\<close>.
\<close>

definition argsort :: "'k::linorder list \<Rightarrow> nat list" where
  "argsort ar = sort_key (\<lambda>i. ar ! i) [0..<length ar]"

fun first_of_run :: "'k list \<Rightarrow> bool list" where
  "first_of_run [] = []"
| "first_of_run (a # as) = True # map2 (\<lambda>b c. b \<noteq> c) as (butlast (a # as))"

definition compress :: "bool list \<Rightarrow> 'a list \<Rightarrow> 'a list" where
  "compress flag xs = map snd (filter fst (zip flag xs))"

definition np_unique_index :: "'k::linorder list \<Rightarrow> 'k list \<times> nat list" where
  "np_unique_index ar =
     (let perm = argsort ar;
          aux = map (\<lambda>i. ar ! i) perm;
          flag = first_of_run aux
      in (compress flag aux, compress flag perm))"

text \<open>
  The key \<^verbatim>\<open>x + 1j*y\<close> of two flattened coordinate arrays. Complex numbers are sorted
  by real part, then by imaginary part: the key is the pair \<open>(x, y)\<close> in the
  lexicographic order. Arrays of different lengths are broadcast when one of them has
  a single entry and raise \<^verbatim>\<open>ValueError\<close> otherwise. Coordinates are finite numbers.
\<close>

definition complex_key :: "real list \<Rightarrow> real list \<Rightarrow> error + (real \<times> real) list" where
  "complex_key x y =
     (if length x = length y then Inr (zip x y)
      else if length x = 1 then Inr (map (\<lambda>b. (hd x, b)) y)
      else if length y = 1 then Inr (map (\<lambda>a. (a, hd y)) x)
      else Inl ValueError)"

text \<open>
  Lines 133 to 140 of \<^verbatim>\<open>prepare_for_interpolation\<close>, on the flattened arrays
  \<^verbatim>\<open>x\<close>, \<^verbatim>\<open>y\<close> and \<^verbatim>\<open>elem_solution\<close>:
  \<^verbatim>\<open>unique_points, unique_indices = unique((x + 1j*y).flatten(), return_index=True)\<close>,
  then each array indexed by \<^verbatim>\<open>unique_indices\<close>.
\<close>

definition remove_double_points ::
  "real list \<Rightarrow> real list \<Rightarrow> 'v list \<Rightarrow> error + (real list \<times> real list \<times> 'v list)" where
  "remove_double_points x y elem_solution =
     (case complex_key x y of
        Inl e \<Rightarrow> Inl e
      | Inr keys \<Rightarrow>
          (let unique_indices = map int (snd (np_unique_index keys)) in
           (case np_take x unique_indices of
              Inl e \<Rightarrow> Inl e
            | Inr x_unique \<Rightarrow>
                (case np_take y unique_indices of
                   Inl e \<Rightarrow> Inl e
                 | Inr y_unique \<Rightarrow>
                     (case np_take elem_solution unique_indices of
                        Inl e \<Rightarrow> Inl e
                      | Inr U_unique \<Rightarrow> Inr (x_unique, y_unique, U_unique))))))"

section \<open>Notions used in the statements\<close>

text \<open>The position that an accepted index \<open>i\<close> denotes in an array of length \<open>n\<close>.\<close>

definition wrap :: "nat \<Rightarrow> int \<Rightarrow> nat" where
  "wrap n i = nat (if i < 0 then i + int n else i)"

text \<open>The indices that \<^verbatim>\<open>np.take\<close> accepts for an array of length \<open>n\<close>.\<close>

definition in_bounds :: "nat \<Rightarrow> int \<Rightarrow> bool" where
  "in_bounds n i \<longleftrightarrow> - int n \<le> i \<and> i < int n"

text \<open>All three indices of a row are accepted.\<close>

definition row_in_bounds :: "nat \<Rightarrow> int \<times> int \<times> int \<Rightarrow> bool" where
  "row_in_bounds n r = (case r of (i, j, k) \<Rightarrow> in_bounds n i \<and> in_bounds n j \<and> in_bounds n k)"

text \<open>The three entries of an array that a row of indices selects.\<close>

definition gather_row :: "'a list \<Rightarrow> int \<times> int \<times> int \<Rightarrow> 'a \<times> 'a \<times> 'a" where
  "gather_row a r = (case r of (i, j, k) \<Rightarrow> (a ! wrap (length a) i, a ! wrap (length a) j, a ! wrap (length a) k))"

text \<open>
  The output that the specification gives for one query point: the sum over \<open>j\<close> in
  {0, 1, 2} of \<^verbatim>\<open>weights[q][j] * field[vertex_indices[q][j]]\<close>, the field vector being
  indexed as arrays are (a negative index counts from the end).
\<close>

definition weighted_sum :: "float64 list \<Rightarrow> int \<times> int \<times> int \<Rightarrow> float64 \<times> float64 \<times> float64 \<Rightarrow> float64" where
  "weighted_sum field v w =
     (case v of (i0, i1, i2) \<Rightarrow> (case w of (w0, w1, w2) \<Rightarrow>
        fadd (fadd (fmul w0 (field ! wrap (length field) i0)) (fmul w1 (field ! wrap (length field) i1)))
          (fmul w2 (field ! wrap (length field) i2))))"

text \<open>The row of weights that \<^verbatim>\<open>construct_vertices\<close> computes for one query point from the transform of one triangle.\<close>

definition weights_row :: "affine \<Rightarrow> point \<Rightarrow> float64 \<times> float64 \<times> float64" where
  "weights_row t p = hstack_row (einsum_jk_k (matrix t) (sub2 p (translation t)))"





text \<open>A point lies in a triangle when its three barycentric coordinates all lie in [0, 1].\<close>

definition inside :: "affine \<Rightarrow> point \<Rightarrow> bool" where
  "inside t p =
     (case weights_row t p of (c0, c1, c2) \<Rightarrow>
        fle (Fin 0) c0 \<and> fle c0 (Fin 1) \<and> fle (Fin 0) c1 \<and> fle c1 (Fin 1) \<and> fle (Fin 0) c2 \<and> fle c2 (Fin 1))"

text \<open>The index of the first triangle, counted from \<open>i\<close>, that contains the point; -1 when none does.\<close>

fun search :: "affine list \<Rightarrow> point \<Rightarrow> int \<Rightarrow> int" where
  "search [] p i = - 1"
| "search (t # ts) p i = (if inside t p then i else search ts p (i + 1))"

text \<open>A point location by exhaustive search over the triangles, with the contract of \<^verbatim>\<open>find_simplex\<close>: the index of a triangle that contains the point, and -1 for a point outside the triangulation. It stands for the library method in the examples.\<close>

definition find_simplex_search :: "Delaunay \<Rightarrow> point \<Rightarrow> int" where
  "find_simplex_search tri p = search (transform tri) p 0"

text \<open>An example: the four corners of the unit square as source points.\<close>

definition square_points :: "point list" where
  "square_points = [(Fin 0, Fin 0), (Fin 1, Fin 0), (Fin 0, Fin 1), (Fin 1, Fin 1)]"

text \<open>A triangulation of the unit square into the triangles with corners 1, 2, 0 and 1, 2, 3. The transform of a triangle is the inverse of the matrix whose columns are the first two corners minus the third, followed by the third corner.\<close>

definition square_tri :: Delaunay where
  "square_tri =
     \<lparr>simplices = [(1, 2, 0), (1, 2, 3)],
      transform = [((Fin 1, Fin 0), (Fin 0, Fin 1), (Fin 0, Fin 0)),
                   ((Fin 0, Fin (- 1)), (Fin (- 1), Fin 0), (Fin 1, Fin 1))]\<rparr>"

text \<open>A triangulator that knows the example.\<close>

definition square_delaunay :: "point list \<Rightarrow> error + Delaunay" where
  "square_delaunay xy = (if xy = square_points then Inr square_tri else Inl QhullError)"

text \<open>The value lies in the range \<^verbatim>\<open>[min(xs), max(xs)]\<close>: some entry of the data is below every entry and below the value, and some entry is above every entry and above the value. No value lies in the range of data that hold a not-a-number.\<close>

definition within_range :: "float64 \<Rightarrow> float64 list \<Rightarrow> bool" where
  "within_range v xs \<longleftrightarrow>
     (\<exists>lo\<in>set xs. (\<forall>x\<in>set xs. fle lo x) \<and> fle lo v) \<and>
     (\<exists>hi\<in>set xs. (\<forall>x\<in>set xs. fle x hi) \<and> fle v hi)"

text \<open>The value at the first source point that equals the query point; not-a-number when there is none.\<close>

fun lookup_point :: "point list \<Rightarrow> float64 list \<Rightarrow> point \<Rightarrow> float64" where
  "lookup_point (p # ps) (v # vs) q = (if p = q then v else lookup_point ps vs q)"
| "lookup_point _ _ q = NaN"

text \<open>A scattered-data interpolation that is exact at the source points and gives not-a-number elsewhere. It stands for the library function in the examples.\<close>

definition griddata_at_nodes :: "point list \<Rightarrow> float64 list \<Rightarrow> point \<Rightarrow> string \<Rightarrow> error + float64" where
  "griddata_at_nodes points vals q method = Inr (lookup_point points vals q)"

text \<open>The elements of a list that start a run of equal keys: what the mask \<^verbatim>\<open>flag\<close> selects.\<close>

fun run_heads :: "('a \<Rightarrow> 'k) \<Rightarrow> 'a list \<Rightarrow> 'a list" where
  "run_heads f [] = []"
| "run_heads f [x] = [x]"
| "run_heads f (x # y # zs) = (if f x = f y then run_heads f (x # zs) else x # run_heads f (y # zs))"

section \<open>Double precision arithmetic\<close>

text \<open>
  The definitions above compute with exact reals. The program computes with IEEE 754
  binary64 numbers: every sum and product is rounded to the nearest representable
  number, ties to the even mantissa, and overflows to an infinity. The definitions of
  this section and of the next model that arithmetic, for the statements that depend
  on it.

  \<open>D m e\<close> is the number \<open>m * 2^e\<close>. The operations return \<open>m\<close> odd, or \<open>D 0 0\<close> for
  zero, so that equal numbers are equal terms. The sign of zero is not modelled.
\<close>

datatype double = D int int | PInf | NInf | DNaN

text \<open>The term for the number \<open>m * 2^e\<close>: the factors 2 of \<open>m\<close> go to the exponent.\<close>

function trim :: "int \<Rightarrow> int \<Rightarrow> double" where
  "trim m e = (if m = 0 then D 0 0 else if even m then trim (m div 2) (e + 1) else D m e)"
  by pat_completeness auto
termination
  by (relation "measure (\<lambda>(m, e). nat \<bar>m\<bar>)") (auto elim!: evenE)

text \<open>The number of binary digits of a positive integer.\<close>

function bit_length :: "int \<Rightarrow> int" where
  "bit_length a = (if a \<le> 0 then 0 else 1 + bit_length (a div 2))"
  by pat_completeness auto
termination
  by (relation "measure nat") auto

definition overflow :: "int \<Rightarrow> double" where
  "overflow m = (if 0 < m then PInf else NInf)"

text \<open>
  The binary64 number nearest to the exact value \<open>m * 2^e\<close>. A mantissa has at most 53
  digits and the smallest unit is \<open>2^-1074\<close> (subnormal numbers), so the last \<open>s\<close> digits
  of \<open>m\<close> are dropped, rounding to the nearest quotient and to the even one when the
  remainder is exactly one half. A result of magnitude \<open>2^1024\<close> or more is an infinity.
\<close>

definition round64 :: "int \<Rightarrow> int \<Rightarrow> double" where
  "round64 m e =
     (if m = 0 then D 0 0
      else
        (let a = \<bar>m\<bar>; k = bit_length a; s = max (k - 53) (- 1074 - e)
         in if s \<le> 0 then (if 1024 < k + e then overflow m else trim m e)
            else
              (let p = 2 ^ nat s; q = a div p; r = a mod p; h = p div 2;
                   q' = (if h < r \<or> (r = h \<and> odd q) then q + 1 else q)
               in if 1024 < bit_length q' + (e + s) then overflow m
                  else trim (sgn m * q') (e + s))))"

fun dneg :: "double \<Rightarrow> double" where
  "dneg (D m e) = D (- m) e"
| "dneg PInf = NInf"
| "dneg NInf = PInf"
| "dneg DNaN = DNaN"

text \<open>
  Addition: the exact sum of two numbers, rounded. Not-a-number propagates, and so does
  an infinity, except that the sum of the two infinities is not-a-number.
\<close>

fun dadd :: "double \<Rightarrow> double \<Rightarrow> double" where
  "dadd (D m1 e1) (D m2 e2) =
     (let e = min e1 e2 in round64 (m1 * 2 ^ nat (e1 - e) + m2 * 2 ^ nat (e2 - e)) e)"
| "dadd DNaN y = DNaN"
| "dadd x DNaN = DNaN"
| "dadd PInf NInf = DNaN"
| "dadd NInf PInf = DNaN"
| "dadd PInf y = PInf"
| "dadd NInf y = NInf"
| "dadd (D m e) y = y"

definition dsub :: "double \<Rightarrow> double \<Rightarrow> double" where
  "dsub x y = dadd x (dneg y)"

fun dsign :: "double \<Rightarrow> int" where
  "dsign (D m e) = sgn m"
| "dsign PInf = 1"
| "dsign NInf = - 1"
| "dsign DNaN = 0"

text \<open>
  Multiplication: the exact product of two numbers, rounded. The product of an infinity
  and zero is not-a-number; otherwise an infinity gives the infinity of the product's
  sign.
\<close>

fun dmul :: "double \<Rightarrow> double \<Rightarrow> double" where
  "dmul (D m1 e1) (D m2 e2) = round64 (m1 * m2) (e1 + e2)"
| "dmul DNaN y = DNaN"
| "dmul x DNaN = DNaN"
| "dmul x y = (if dsign x * dsign y = 0 then DNaN else if 0 < dsign x * dsign y then PInf else NInf)"

text \<open>Comparison \<^verbatim>\<open>x <= y\<close>: false as soon as one side is not-a-number.\<close>

fun dle :: "double \<Rightarrow> double \<Rightarrow> bool" where
  "dle (D m1 e1) (D m2 e2) =
     (let e = min e1 e2 in m1 * 2 ^ nat (e1 - e) \<le> m2 * 2 ^ nat (e2 - e))"
| "dle DNaN y = False"
| "dle x DNaN = False"
| "dle NInf y = True"
| "dle x PInf = True"
| "dle x y = False"

section \<open>The fast path in double precision\<close>

text \<open>
  \<^verbatim>\<open>fast_interpolate\<close> and \<^verbatim>\<open>construct_vertices\<close> once more, line by line as above, on
  binary64 numbers. The indexing operations are those of the first section. The three
  terms of a row of \<^verbatim>\<open>np.einsum('nj,nj->n', a, b)\<close> are added from left to right.
\<close>

definition dot3_64 :: "double \<times> double \<times> double \<Rightarrow> double \<times> double \<times> double \<Rightarrow> double" where
  "dot3_64 a b =
     (case a of (a0, a1, a2) \<Rightarrow> (case b of (b0, b1, b2) \<Rightarrow>
        dadd (dadd (dmul a0 b0) (dmul a1 b1)) (dmul a2 b2)))"

definition einsum_nj_nj_n64 ::
  "(double \<times> double \<times> double) list \<Rightarrow> (double \<times> double \<times> double) list \<Rightarrow> error + double list" where
  "einsum_nj_nj_n64 a b =
     (if length a = length b then Inr (map2 dot3_64 a b)
      else if length a = 1 then Inr (map (dot3_64 (hd a)) b)
      else if length b = 1 then Inr (map (\<lambda>r. dot3_64 r (hd b)) a)
      else Inl ValueError)"

text \<open>\<^verbatim>\<open>return np.einsum('nj,nj->n', np.take(values, vertices), weights)\<close>.\<close>

definition fast_interpolate64 ::
  "double list \<Rightarrow> (int \<times> int \<times> int) list \<Rightarrow> (double \<times> double \<times> double) list \<Rightarrow> error + double list" where
  "fast_interpolate64 values vertices weights =
     (case np_take_rows values vertices of
        Inl e \<Rightarrow> Inl e
      | Inr taken \<Rightarrow> einsum_nj_nj_n64 taken weights)"

type_synonym point64 = "double \<times> double"

type_synonym affine64 = "point64 \<times> point64 \<times> point64"

record Delaunay64 =
  simplices64 :: "(int \<times> int \<times> int) list"
  transform64 :: "affine64 list"

definition translation64 :: "affine64 \<Rightarrow> point64" where
  "translation64 t = (case t of (m0, m1, r) \<Rightarrow> r)"

definition matrix64 :: "affine64 \<Rightarrow> point64 \<times> point64" where
  "matrix64 t = (case t of (m0, m1, r) \<Rightarrow> (m0, m1))"

text \<open>One row of \<^verbatim>\<open>uv - temp[:, 2]\<close>.\<close>

definition sub2_64 :: "point64 \<Rightarrow> point64 \<Rightarrow> point64" where
  "sub2_64 p r = (dsub (fst p) (fst r), dsub (snd p) (snd r))"

text \<open>One entry of \<^verbatim>\<open>np.einsum('njk,nk->nj', m, delta)\<close>.\<close>

definition row_dot64 :: "point64 \<Rightarrow> point64 \<Rightarrow> double" where
  "row_dot64 m d = dadd (dmul (fst m) (fst d)) (dmul (snd m) (snd d))"

definition einsum_jk_k64 :: "point64 \<times> point64 \<Rightarrow> point64 \<Rightarrow> point64" where
  "einsum_jk_k64 m d = (row_dot64 (fst m) d, row_dot64 (snd m) d)"

text \<open>One row of \<^verbatim>\<open>np.hstack((bary, 1 - bary.sum(axis=1, keepdims=True)))\<close>.\<close>

definition hstack_row64 :: "point64 \<Rightarrow> double \<times> double \<times> double" where
  "hstack_row64 b = (fst b, snd b, dsub (D 1 0) (dadd (fst b) (snd b)))"

text \<open>\<^verbatim>\<open>construct_vertices(xy, uv)\<close>, the two library operations being parameters.\<close>

definition construct_vertices64 ::
  "(point64 list \<Rightarrow> error + Delaunay64) \<Rightarrow> (Delaunay64 \<Rightarrow> point64 \<Rightarrow> int) \<Rightarrow> point64 list \<Rightarrow> point64 list
   \<Rightarrow> error + ((int \<times> int \<times> int) list \<times> (double \<times> double \<times> double) list)" where
  "construct_vertices64 delaunay find_simplex xy uv =
     (case delaunay xy of
        Inl e \<Rightarrow> Inl e
      | Inr tri \<Rightarrow>
          (let simplex = map (find_simplex tri) uv in
           (case np_take (simplices64 tri) simplex of
              Inl e \<Rightarrow> Inl e
            | Inr vertices \<Rightarrow>
                (case np_take (transform64 tri) simplex of
                   Inl e \<Rightarrow> Inl e
                 | Inr temp \<Rightarrow>
                     (let delta = map2 sub2_64 uv (map translation64 temp);
                          bary = map2 einsum_jk_k64 (map matrix64 temp) delta
                      in Inr (vertices, map hstack_row64 bary))))))"

section \<open>Notions used in the statements on double precision\<close>

text \<open>
  The weights as the program forms them: \<^verbatim>\<open>delta = query - translation\<close>,
  \<^verbatim>\<open>(w0, w1) = matrix . delta\<close>, and \<^verbatim>\<open>w2 = 1 - (w0 + w1)\<close>, the first two weights being
  added first. Nothing is clamped.
\<close>

definition barycentric_weights64 :: "affine64 \<Rightarrow> point64 \<Rightarrow> double \<times> double \<times> double" where
  "barycentric_weights64 t query =
     (case t of ((m00, m01), (m10, m11), (r0, r1)) \<Rightarrow> (case query of (qx, qy) \<Rightarrow>
        (let d0 = dsub qx r0; d1 = dsub qy r1;
             w0 = dadd (dmul m00 d0) (dmul m01 d1);
             w1 = dadd (dmul m10 d0) (dmul m11 d1);
             w2 = dsub (D 1 0) (dadd w0 w1)
         in (w0, w1, w2))))"

text \<open>
  The weights as the expression \<^verbatim>\<open>w2 = 1 - w0 - w1\<close> gives them, evaluated from left to
  right: \<open>w0\<close> is subtracted from 1, then \<open>w1\<close> from the difference.
\<close>

definition claimed_weights64 :: "affine64 \<Rightarrow> point64 \<Rightarrow> double \<times> double \<times> double" where
  "claimed_weights64 t query =
     (case t of ((m00, m01), (m10, m11), (r0, r1)) \<Rightarrow> (case query of (qx, qy) \<Rightarrow>
        (let d0 = dsub qx r0; d1 = dsub qy r1;
             w0 = dadd (dmul m00 d0) (dmul m01 d1);
             w1 = dadd (dmul m10 d0) (dmul m11 d1);
             w2 = dsub (dsub (D 1 0) w0) w1
         in (w0, w1, w2))))"

text \<open>
  The sum over \<open>j\<close> in {0, 1, 2} of \<^verbatim>\<open>weights[q][j] * field[vertex_indices[q][j]]\<close>, the
  field vector being indexed as arrays are.
\<close>

definition weighted_sum64 :: "double list \<Rightarrow> int \<times> int \<times> int \<Rightarrow> double \<times> double \<times> double \<Rightarrow> double" where
  "weighted_sum64 field v w =
     (case v of (i0, i1, i2) \<Rightarrow> (case w of (w0, w1, w2) \<Rightarrow>
        dadd (dadd (dmul w0 (field ! wrap (length field) i0)) (dmul w1 (field ! wrap (length field) i1)))
          (dmul w2 (field ! wrap (length field) i2))))"


text \<open>The sum of the three entries of a row.\<close>

definition sum3_64 :: "double \<times> double \<times> double \<Rightarrow> double" where
  "sum3_64 w = (case w of (w0, w1, w2) \<Rightarrow> dadd (dadd w0 w1) w2)"

text \<open>
  The point location by exhaustive search and the triangulation of the unit square of
  the examples, on binary64 numbers.
\<close>

definition inside64 :: "affine64 \<Rightarrow> point64 \<Rightarrow> bool" where
  "inside64 t p =
     (case barycentric_weights64 t p of (c0, c1, c2) \<Rightarrow>
        dle (D 0 0) c0 \<and> dle c0 (D 1 0) \<and> dle (D 0 0) c1 \<and> dle c1 (D 1 0) \<and> dle (D 0 0) c2 \<and> dle c2 (D 1 0))"

fun search64 :: "affine64 list \<Rightarrow> point64 \<Rightarrow> int \<Rightarrow> int" where
  "search64 [] p i = - 1"
| "search64 (t # ts) p i = (if inside64 t p then i else search64 ts p (i + 1))"

definition find_simplex_search64 :: "Delaunay64 \<Rightarrow> point64 \<Rightarrow> int" where
  "find_simplex_search64 tri p = search64 (transform64 tri) p 0"

definition square_points64 :: "point64 list" where
  "square_points64 = [(D 0 0, D 0 0), (D 1 0, D 0 0), (D 0 0, D 1 0), (D 1 0, D 1 0)]"

definition square_tri64 :: Delaunay64 where
  "square_tri64 =
     \<lparr>simplices64 = [(1, 2, 0), (1, 2, 3)],
      transform64 = [((D 1 0, D 0 0), (D 0 0, D 1 0), (D 0 0, D 0 0)),
                     ((D 0 0, D (- 1) 0), (D (- 1) 0, D 0 0), (D 1 0, D 1 0))]\<rparr>"

definition square_delaunay64 :: "point64 list \<Rightarrow> error + Delaunay64" where
  "square_delaunay64 xy = (if xy = square_points64 then Inr square_tri64 else Inl QhullError)"

section \<open>Array indexing\<close>

lemma np_take1_ok: "in_bounds (length a) i \<Longrightarrow> np_take1 a i = Inr (a ! wrap (length a) i)"
  by (auto simp: np_take1_def in_bounds_def wrap_def Let_def)

lemma np_take1_bad: "\<not> in_bounds (length a) i \<Longrightarrow> np_take1 a i = Inl IndexError"
  by (auto simp: np_take1_def in_bounds_def Let_def)

lemma wrap_less: "in_bounds n i \<Longrightarrow> wrap n i < n"
  by (auto simp: in_bounds_def wrap_def)

lemma collect_all_ok: "collect (map (\<lambda>x. Inr (f x)) xs) = Inr (map f xs)"
  by (induction xs) auto

lemma collect_some_bad:
  "\<forall>x\<in>set xs. f x = Inl e \<or> (\<exists>v. f x = Inr v) \<Longrightarrow> \<exists>x\<in>set xs. f x = Inl e \<Longrightarrow> collect (map f xs) = Inl e"
proof (induction xs)
  case Nil then show ?case by simp
next
  case (Cons x xs)
  show ?case
  proof (cases "f x")
    case (Inl e') 
    with Cons.prems(1) have "e' = e" by auto
    with Inl show ?thesis by simp
  next
    case (Inr v)
    with Cons.prems have "\<exists>x\<in>set xs. f x = Inl e" by auto
    moreover from Cons.prems(1) have "\<forall>x\<in>set xs. f x = Inl e \<or> (\<exists>v. f x = Inr v)" by simp
    ultimately have "collect (map f xs) = Inl e" by (rule Cons.IH[rotated])
    with Inr show ?thesis by simp
  qed
qed

lemma np_take_ok:
  assumes "\<forall>i\<in>set idx. in_bounds (length a) i"
  shows "np_take a idx = Inr (map (\<lambda>i. a ! wrap (length a) i) idx)"
proof -
  from assms have "map (np_take1 a) idx = map (\<lambda>i. Inr (a ! wrap (length a) i)) idx"
    by (simp add: np_take1_ok)
  then have "collect (map (np_take1 a) idx) = collect (map (\<lambda>i. Inr (a ! wrap (length a) i)) idx)"
    by (rule arg_cong)
  also have "\<dots> = Inr (map (\<lambda>i. a ! wrap (length a) i) idx)"
    by (rule collect_all_ok)
  finally show ?thesis by (simp only: np_take_def)
qed

lemma np_take_bad:
  assumes "\<exists>i\<in>set idx. \<not> in_bounds (length a) i"
  shows "np_take a idx = Inl IndexError"
  unfolding np_take_def
proof (rule collect_some_bad)
  show "\<forall>x\<in>set idx. np_take1 a x = Inl IndexError \<or> (\<exists>v. np_take1 a x = Inr v)"
    by (metis np_take1_ok np_take1_bad)
  from assms show "\<exists>x\<in>set idx. np_take1 a x = Inl IndexError"
    using np_take1_bad by blast
qed

lemma take_row_ok: "row_in_bounds (length a) r \<Longrightarrow> take_row a r = Inr (gather_row a r)"
  by (cases r) (simp add: take_row_def row_in_bounds_def gather_row_def np_take1_ok)

lemma take_row_bad: "\<not> row_in_bounds (length a) r \<Longrightarrow> take_row a r = Inl IndexError"
proof (cases r)
  case (fields i j k)
  assume bad: "\<not> row_in_bounds (length a) r"
  show ?thesis
  proof (cases "in_bounds (length a) i")
    case False
    then show ?thesis by (simp add: fields take_row_def np_take1_bad)
  next
    case i: True
    show ?thesis
    proof (cases "in_bounds (length a) j")
      case False
      then show ?thesis by (simp add: fields take_row_def np_take1_ok i np_take1_bad)
    next
      case j: True
      with i bad have "\<not> in_bounds (length a) k" by (simp add: fields row_in_bounds_def)
      then show ?thesis by (simp add: fields take_row_def np_take1_ok i j np_take1_bad)
    qed
  qed
qed

lemma np_take_rows_ok:
  assumes "\<forall>r\<in>set V. row_in_bounds (length a) r"
  shows "np_take_rows a V = Inr (map (gather_row a) V)"
proof -
  from assms have "map (take_row a) V = map (\<lambda>r. Inr (gather_row a r)) V"
    by (simp add: take_row_ok)
  then have "collect (map (take_row a) V) = collect (map (\<lambda>r. Inr (gather_row a r)) V)"
    by (rule arg_cong)
  also have "\<dots> = Inr (map (gather_row a) V)"
    by (rule collect_all_ok)
  finally show ?thesis by (simp only: np_take_rows_def)
qed

lemma np_take_rows_bad:
  assumes "\<exists>r\<in>set V. \<not> row_in_bounds (length a) r"
  shows "np_take_rows a V = Inl IndexError"
  unfolding np_take_rows_def
proof (rule collect_some_bad)
  show "\<forall>x\<in>set V. take_row a x = Inl IndexError \<or> (\<exists>v. take_row a x = Inr v)"
    by (metis take_row_ok take_row_bad)
  from assms show "\<exists>x\<in>set V. take_row a x = Inl IndexError"
    using take_row_bad by blast
qed

lemma fmul_commute: "fmul a b = fmul b a"
  by (cases a; cases b) simp_all

lemma dot3_gather_row: "dot3 (gather_row a r) w = weighted_sum a r w"
  by (cases r; cases w) (simp add: dot3_def gather_row_def weighted_sum_def fmul_commute)

lemma fast_interpolate_ok:
  assumes "\<forall>r\<in>set V. row_in_bounds (length a) r" "length V = length W"
  shows "fast_interpolate a V W = Inr (map2 dot3 (map (gather_row a) V) W)"
  using assms by (simp add: fast_interpolate_def np_take_rows_ok einsum_nj_nj_n_def)

section \<open>The fast evaluator: outputs\<close>

text \<open>
  Claim C2. For a map of \<open>K\<close> vertex-index triples and \<open>K\<close> weight triples whose
  indices are indices of the field vector, \<^verbatim>\<open>fast_interpolate\<close> returns, without
  raising, exactly \<open>K\<close> outputs, and output \<open>q\<close> is the sum over \<open>j\<close> in {0, 1, 2} of
  \<^verbatim>\<open>weights[q][j] * field[vertex_indices[q][j]]\<close>.
\<close>

theorem fast_interpolate_weighted_sum:
  assumes "length vertices = K" and "length weights = K"
    and ok: "\<forall>r\<in>set vertices. row_in_bounds (length field) r"
  shows "\<exists>output. fast_interpolate field vertices weights = Inr output \<and> length output = K \<and>
           (\<forall>q<K. output ! q = weighted_sum field (vertices ! q) (weights ! q))"
proof -
  let ?out = "map2 dot3 (map (gather_row field) vertices) weights"
  have "fast_interpolate field vertices weights = Inr ?out"
    using ok assms(1,2) by (simp add: fast_interpolate_ok)
  moreover have "length ?out = K" using assms(1,2) by simp
  moreover have "\<forall>q<K. ?out ! q = weighted_sum field (vertices ! q) (weights ! q)"
    using assms by (simp add: dot3_gather_row)
  ultimately show ?thesis by blast
qed

theorem fast_interpolate_weighted_sum_witness:
  "fast_interpolate [Fin 1, Fin 2, Fin 3] [(1, 2, 0)] [(Fin (1/4), Fin (1/4), Fin (1/2))]
     = Inr [Fin (7/4)]"
proof -
  have h1: "length [(1::int, 2::int, 0::int)] = 1" by simp
  have h2: "length [(Fin (1/4), Fin (1/4), Fin (1/2))] = 1" by simp
  have h3: "\<forall>r\<in>set [(1::int, 2::int, 0::int)]. row_in_bounds (length [Fin 1, Fin 2, Fin 3]) r"
    by (simp add: row_in_bounds_def in_bounds_def)
  from fast_interpolate_weighted_sum [OF h1 h2 h3] obtain out where
    o: "fast_interpolate [Fin 1, Fin 2, Fin 3] [(1, 2, 0)] [(Fin (1/4), Fin (1/4), Fin (1/2))] = Inr out"
      "length out = 1"
      "out ! 0 = weighted_sum [Fin 1, Fin 2, Fin 3] ([(1, 2, 0)] ! 0) ([(Fin (1/4), Fin (1/4), Fin (1/2))] ! 0)"
    by auto
  from o(2) have "out = [out ! 0]" by (cases out) auto
  moreover have "weighted_sum [Fin 1, Fin 2, Fin 3] (1, 2, 0) (Fin (1/4), Fin (1/4), Fin (1/2)) = Fin (7/4)"
    by (simp add: weighted_sum_def wrap_def)
  ultimately have "out = [Fin (7/4)]" using o(3) by simp
  with o(1) show ?thesis by simp
qed

section \<open>The fast evaluator: index errors\<close>

lemma einsum_error: "einsum_nj_nj_n A W = Inl e \<Longrightarrow> e = ValueError"
  by (auto simp: einsum_nj_nj_n_def split: if_splits)

text \<open>
  Claim C7, as amended. \<^verbatim>\<open>fast_interpolate\<close> never compares the length of the field
  vector with the number of source points. It raises \<^verbatim>\<open>IndexError\<close> exactly when some
  stored vertex index lies outside \<^verbatim>\<open>[-n, n)\<close> for a field vector of length \<open>n\<close>; when
  every stored index lies in that range and there are as many weight triples as index
  triples, it returns one output per query point, whatever the length of the field
  vector.
\<close>

theorem fast_interpolate_index_error:
  "(fast_interpolate field vertices weights = Inl IndexError
      \<longleftrightarrow> (\<exists>r\<in>set vertices. \<not> row_in_bounds (length field) r)) \<and>
   ((\<forall>r\<in>set vertices. row_in_bounds (length field) r) \<and> length vertices = length weights
      \<longrightarrow> (\<exists>out. fast_interpolate field vertices weights = Inr out \<and> length out = length vertices))"
proof (cases "\<forall>r\<in>set vertices. row_in_bounds (length field) r")
  case True
  have "fast_interpolate field vertices weights \<noteq> Inl IndexError"
    using einsum_error [of "map (gather_row field) vertices" weights IndexError]
    by (auto simp: fast_interpolate_def np_take_rows_ok [OF True])
  moreover have "length vertices = length weights \<Longrightarrow>
      \<exists>out. fast_interpolate field vertices weights = Inr out \<and> length out = length vertices"
    using True by (simp add: fast_interpolate_ok)
  ultimately show ?thesis using True by blast
next
  case False
  then have bad: "\<exists>r\<in>set vertices. \<not> row_in_bounds (length field) r" by simp
  then show ?thesis by (simp add: fast_interpolate_def np_take_rows_bad [OF bad])
qed

theorem fast_interpolate_index_error_witness:
  "fast_interpolate [Fin 1, Fin 2] [(1, 2, 0)] [(Fin (1/4), Fin (1/4), Fin (1/2))] = Inl IndexError \<and>
   (\<exists>out. fast_interpolate [Fin 1, Fin 2, Fin 3, Fin 4, Fin 5] [(1, 2, 0)] [(Fin (1/4), Fin (1/4), Fin (1/2))]
            = Inr out \<and> length out = 1)"
proof -
  have bad: "\<exists>r\<in>set [(1::int, 2::int, 0::int)]. \<not> row_in_bounds (length [Fin 1, Fin 2]) r"
    by (simp add: row_in_bounds_def in_bounds_def)
  have ok: "(\<forall>r\<in>set [(1::int, 2::int, 0::int)]. row_in_bounds (length [Fin 1, Fin 2, Fin 3, Fin 4, Fin 5]) r)
              \<and> length [(1::int, 2::int, 0::int)] = length [(Fin (1/4), Fin (1/4), Fin (1/2))]"
    by (simp add: row_in_bounds_def in_bounds_def)
  from fast_interpolate_index_error [of "[Fin 1, Fin 2]" "[(1, 2, 0)]" "[(Fin (1/4), Fin (1/4), Fin (1/2))]"] bad
  have 1: "fast_interpolate [Fin 1, Fin 2] [(1, 2, 0)] [(Fin (1/4), Fin (1/4), Fin (1/2))] = Inl IndexError"
    by blast
  from fast_interpolate_index_error [of "[Fin 1, Fin 2, Fin 3, Fin 4, Fin 5]" "[(1, 2, 0)]"
      "[(Fin (1/4), Fin (1/4), Fin (1/2))]"] ok
  have 2: "\<exists>out. fast_interpolate [Fin 1, Fin 2, Fin 3, Fin 4, Fin 5] [(1, 2, 0)] [(Fin (1/4), Fin (1/4), Fin (1/2))]
            = Inr out \<and> length out = length [(1::int, 2::int, 0::int)]"
    by blast
  from 1 2 show ?thesis by simp
qed

section \<open>Vertices and weights\<close>



lemma construct_vertices_bad:
  assumes tri: "delaunay xy = Inr tri"
    and loc: "\<exists>p\<in>set uv. \<not> in_bounds (length (simplices tri)) (find_simplex tri p)"
  shows "construct_vertices delaunay find_simplex xy uv = Inl IndexError"
proof -
  from loc have "\<exists>i\<in>set (map (find_simplex tri) uv). \<not> in_bounds (length (simplices tri)) i" by simp
  then have "np_take (simplices tri) (map (find_simplex tri) uv) = Inl IndexError" by (rule np_take_bad)
  then show ?thesis by (simp add: construct_vertices_def tri)
qed


lemma wrap_nat: "0 \<le> i \<Longrightarrow> wrap n i = nat i"
  by (simp add: wrap_def)

lemma wrap_minus_one: "wrap n (- 1) = n - 1"
  by (simp add: wrap_def)


lemmas geometry_defs = weights_row_def hstack_row_def einsum_jk_k_def row_dot_def matrix_def
  translation_def sub2_def inside_def find_simplex_search_def square_tri_def square_points_def
  square_delaunay_def

lemma square_located: "find_simplex_search square_tri (Fin (1/4), Fin (1/4)) = 0"
  by (simp add: geometry_defs)

lemma square_outside: "find_simplex_search square_tri (Fin 5, Fin 5) = - 1"
  by (simp add: geometry_defs)

lemma square_build: "square_delaunay square_points = Inr square_tri"
  by (simp add: square_delaunay_def)



text \<open>
  Claim C1 asks for not-a-number at a query point outside the convex hull. On the unit
  square with the field values 1, 2, 3, 4 the query point (5, 5) is outside, and the
  fast path returns 16.
\<close>

theorem fast_path_outside_hull_finite:
  "find_simplex_search square_tri (Fin 5, Fin 5) = - 1 \<and>
   construct_vertices square_delaunay find_simplex_search square_points [(Fin 5, Fin 5)]
     = Inr ([(1, 2, 3)], [(Fin (- 4), Fin (- 4), Fin 9)]) \<and>
   fast_interpolate [Fin 1, Fin 2, Fin 3, Fin 4] [(1, 2, 3)] [(Fin (- 4), Fin (- 4), Fin 9)]
     = Inr [Fin 16]"
proof -
  have "construct_vertices square_delaunay find_simplex_search square_points [(Fin 5, Fin 5)]
     = Inr ([(1, 2, 3)], [(Fin (- 4), Fin (- 4), Fin 9)])"
    by (simp add: construct_vertices_def square_build square_outside np_take_def np_take1_def)
       (simp add: geometry_defs)
  moreover have "fast_interpolate [Fin 1, Fin 2, Fin 3, Fin 4] [(1, 2, 3)] [(Fin (- 4), Fin (- 4), Fin 9)]
     = Inr [Fin 16]"
    by (simp add: fast_interpolate_def np_take_rows_def take_row_def np_take1_def einsum_nj_nj_n_def dot3_def)
  ultimately show ?thesis by (simp add: square_outside)
qed

text \<open>
  Claim C7 as stated fails: a map built from the four source points of the unit square
  is evaluated without any exception on field vectors of length 3 and of length 5.
\<close>

theorem fast_interpolate_length_unchecked:
  "construct_vertices square_delaunay find_simplex_search square_points [(Fin (1/4), Fin (1/4))]
     = Inr ([(1, 2, 0)], [(Fin (1/4), Fin (1/4), Fin (1/2))]) \<and>
   length [Fin 1, Fin 2, Fin 3] \<noteq> length square_points \<and>
   fast_interpolate [Fin 1, Fin 2, Fin 3] [(1, 2, 0)] [(Fin (1/4), Fin (1/4), Fin (1/2))]
     = Inr [Fin (7/4)] \<and>
   length [Fin 1, Fin 2, Fin 3, Fin 4, Fin 5] \<noteq> length square_points \<and>
   fast_interpolate [Fin 1, Fin 2, Fin 3, Fin 4, Fin 5] [(1, 2, 0)] [(Fin (1/4), Fin (1/4), Fin (1/2))]
     = Inr [Fin (7/4)]"
proof -
  have "construct_vertices square_delaunay find_simplex_search square_points [(Fin (1/4), Fin (1/4))]
     = Inr ([(1, 2, 0)], [(Fin (1/4), Fin (1/4), Fin (1/2))])"
    by (simp add: construct_vertices_def square_build square_located np_take_def np_take1_def)
       (simp add: geometry_defs)
  moreover have "fast_interpolate [Fin 1, Fin 2, Fin 3] [(1, 2, 0)] [(Fin (1/4), Fin (1/4), Fin (1/2))]
     = Inr [Fin (7/4)]"
    by (simp add: fast_interpolate_def np_take_rows_def take_row_def np_take1_def einsum_nj_nj_n_def dot3_def)
  moreover have "fast_interpolate [Fin 1, Fin 2, Fin 3, Fin 4, Fin 5] [(1, 2, 0)] [(Fin (1/4), Fin (1/4), Fin (1/2))]
     = Inr [Fin (7/4)]"
    by (simp add: fast_interpolate_def np_take_rows_def take_row_def np_take1_def einsum_nj_nj_n_def dot3_def)
  ultimately show ?thesis by (simp add: square_points_def)
qed

section \<open>The bounding box test\<close>

lemma fle_trans: "fle a b \<Longrightarrow> fle b c \<Longrightarrow> fle a c"
  by (cases a; cases b; cases c) simp_all

lemma fmin_cases:
  "(fmin a x = NaN \<and> (a = NaN \<or> x = NaN)) \<or> ((fmin a x = a \<or> fmin a x = x) \<and> fle (fmin a x) a \<and> fle (fmin a x) x)"
  by (cases a; cases x) (auto simp: min_def)

lemma fmax_cases:
  "(fmax a x = NaN \<and> (a = NaN \<or> x = NaN)) \<or> ((fmax a x = a \<or> fmax a x = x) \<and> fle a (fmax a x) \<and> fle x (fmax a x))"
  by (cases a; cases x) (auto simp: max_def)

lemma fle_not_NaN [simp]: "\<not> fle NaN a" "\<not> fle a NaN"
  by (cases a; simp)+

lemma fold_fmin:
  "(fold fmin xs x = NaN \<and> NaN \<in> set (x # xs)) \<or>
   (fold fmin xs x \<in> set (x # xs) \<and> (\<forall>y\<in>set (x # xs). fle (fold fmin xs x) y))"
proof (induction xs arbitrary: x)
  case Nil
  show ?case by (cases x) simp_all
next
  case (Cons a xs)
  let ?m = "fold fmin xs (fmin a x)"
  from Cons.IH [of "fmin a x"] consider
    (nan) "?m = NaN" "NaN \<in> set (fmin a x # xs)"
    | (least) "?m \<in> set (fmin a x # xs)" "\<forall>y\<in>set (fmin a x # xs). fle ?m y" by blast
  then show ?case
  proof cases
    case nan
    with fmin_cases [of a x] show ?thesis by auto
  next
    case least
    then have le: "fle ?m (fmin a x)" by simp
    then have "fmin a x \<noteq> NaN" by auto
    with fmin_cases [of a x] have sel: "fmin a x = a \<or> fmin a x = x"
      and la: "fle (fmin a x) a" and lx: "fle (fmin a x) x" by auto
    from le la lx have "fle ?m a" "fle ?m x" by (blast intro: fle_trans)+
    with least sel show ?thesis by auto
  qed
qed

lemma fold_fmax:
  "(fold fmax xs x = NaN \<and> NaN \<in> set (x # xs)) \<or>
   (fold fmax xs x \<in> set (x # xs) \<and> (\<forall>y\<in>set (x # xs). fle y (fold fmax xs x)))"
proof (induction xs arbitrary: x)
  case Nil
  show ?case by (cases x) simp_all
next
  case (Cons a xs)
  let ?m = "fold fmax xs (fmax a x)"
  from Cons.IH [of "fmax a x"] consider
    (nan) "?m = NaN" "NaN \<in> set (fmax a x # xs)"
    | (greatest) "?m \<in> set (fmax a x # xs)" "\<forall>y\<in>set (fmax a x # xs). fle y ?m" by blast
  then show ?case
  proof cases
    case nan
    with fmax_cases [of a x] show ?thesis by auto
  next
    case greatest
    then have le: "fle (fmax a x) ?m" by simp
    then have "fmax a x \<noteq> NaN" by auto
    with fmax_cases [of a x] have sel: "fmax a x = a \<or> fmax a x = x"
      and la: "fle a (fmax a x)" and lx: "fle x (fmax a x)" by auto
    from le la lx have "fle a ?m" "fle x ?m" by (blast intro: fle_trans)+
    with greatest sel show ?thesis by auto
  qed
qed

lemma np_min_lower:
  assumes "np_min xs = Inr lo"
  shows "fle lo v \<longleftrightarrow> (\<exists>a\<in>set xs. (\<forall>x\<in>set xs. fle a x) \<and> fle a v)"
proof (cases xs)
  case Nil
  with assms show ?thesis by simp
next
  case (Cons x xs')
  with assms have lo: "lo = fold fmin xs' x" by simp
  from fold_fmin [of xs' x] consider
    (nan) "lo = NaN" "NaN \<in> set xs"
    | (least) "lo \<in> set xs" "\<forall>y\<in>set xs. fle lo y" unfolding lo Cons by blast
  then show ?thesis
  proof cases
    case nan
    from nan(2) have "\<not> (\<exists>a\<in>set xs. (\<forall>x\<in>set xs. fle a x) \<and> fle a v)"
      using fle_not_NaN(2) by blast
    with nan(1) show ?thesis by simp
  next
    case least
    show ?thesis
    proof
      assume "fle lo v"
      with least show "\<exists>a\<in>set xs. (\<forall>x\<in>set xs. fle a x) \<and> fle a v" by blast
    next
      assume "\<exists>a\<in>set xs. (\<forall>x\<in>set xs. fle a x) \<and> fle a v"
      then obtain a where a: "a \<in> set xs" "\<forall>x\<in>set xs. fle a x" "fle a v" by blast
      from a(1) least(2) have "fle lo a" by blast
      then show "fle lo v" using a(3) by (rule fle_trans)
    qed
  qed
qed

lemma np_max_upper:
  assumes "np_max xs = Inr hi"
  shows "fle v hi \<longleftrightarrow> (\<exists>a\<in>set xs. (\<forall>x\<in>set xs. fle x a) \<and> fle v a)"
proof (cases xs)
  case Nil
  with assms show ?thesis by simp
next
  case (Cons x xs')
  with assms have hi: "hi = fold fmax xs' x" by simp
  from fold_fmax [of xs' x] consider
    (nan) "hi = NaN" "NaN \<in> set xs"
    | (greatest) "hi \<in> set xs" "\<forall>y\<in>set xs. fle y hi" unfolding hi Cons by blast
  then show ?thesis
  proof cases
    case nan
    from nan(2) have "\<not> (\<exists>a\<in>set xs. (\<forall>x\<in>set xs. fle x a) \<and> fle v a)"
      using fle_not_NaN(1) by blast
    with nan(1) show ?thesis by simp
  next
    case greatest
    show ?thesis
    proof
      assume "fle v hi"
      with greatest show "\<exists>a\<in>set xs. (\<forall>x\<in>set xs. fle x a) \<and> fle v a" by blast
    next
      assume "\<exists>a\<in>set xs. (\<forall>x\<in>set xs. fle x a) \<and> fle v a"
      then obtain a where a: "a \<in> set xs" "\<forall>x\<in>set xs. fle x a" "fle v a" by blast
      from a(1) greatest(2) have "fle a hi" by blast
      with a(3) show "fle v hi" by (rule fle_trans)
    qed
  qed
qed

lemma np_min_nonempty: "xs \<noteq> [] \<Longrightarrow> \<exists>lo. np_min xs = Inr lo"
  by (cases xs) simp_all

lemma np_max_nonempty: "xs \<noteq> [] \<Longrightarrow> \<exists>hi. np_max xs = Inr hi"
  by (cases xs) simp_all

text \<open>
  Claim C6. For non-empty source data and a single query point, \<^verbatim>\<open>interpolate_BC\<close>
  returns not-a-number, whatever the scattered-data interpolation is, as soon as
  \<^verbatim>\<open>xeval\<close> lies outside \<^verbatim>\<open>[min(xdata), max(xdata)]\<close> or \<^verbatim>\<open>yeval\<close> lies outside
  \<^verbatim>\<open>[min(ydata), max(ydata)]\<close>; otherwise its result is that of the scattered-data
  interpolation on the zipped source points, with the selected method.
\<close>

theorem interpolate_BC_bounding_box:
  assumes "xdata \<noteq> []" and "ydata \<noteq> []"
  shows "interpolate_BC griddata xdata ydata Udata xeval yeval method =
           (if within_range xeval xdata \<and> within_range yeval ydata
            then griddata (zip xdata ydata) Udata (xeval, yeval) method
            else Inr NaN)"
proof -
  from assms(1) obtain xlo where xlo: "np_min xdata = Inr xlo" using np_min_nonempty by blast
  from assms(1) obtain xhi where xhi: "np_max xdata = Inr xhi" using np_max_nonempty by blast
  from assms(2) obtain ylo where ylo: "np_min ydata = Inr ylo" using np_min_nonempty by blast
  from assms(2) obtain yhi where yhi: "np_max ydata = Inr yhi" using np_max_nonempty by blast
  have x: "within_range xeval xdata \<longleftrightarrow> fle xlo xeval \<and> fle xeval xhi"
    by (simp only: within_range_def np_min_lower [OF xlo, of xeval] np_max_upper [OF xhi, of xeval])
  have y: "within_range yeval ydata \<longleftrightarrow> fle ylo yeval \<and> fle yeval yhi"
    by (simp only: within_range_def np_min_lower [OF ylo, of yeval] np_max_upper [OF yhi, of yeval])
  show ?thesis
    by (simp add: interpolate_BC_def xlo xhi ylo yhi x y)
qed

theorem interpolate_BC_bounding_box_witness:
  "interpolate_BC griddata_at_nodes [Fin 0, Fin 1] [Fin 0, Fin 2] [Fin 3, Fin 7] (Fin 1) (Fin 2) ''cubic''
     = Inr (Fin 7) \<and>
   interpolate_BC griddata_at_nodes [Fin 0, Fin 1] [Fin 0, Fin 2] [Fin 3, Fin 7] (Fin (1/2)) (Fin 3) ''cubic''
     = Inr NaN"
proof -
  have hx: "[Fin 0, Fin 1] \<noteq> []" and hy: "[Fin 0, Fin 2] \<noteq> []" by simp_all
  have i: "within_range (Fin 1) [Fin 0, Fin 1]" "within_range (Fin 2) [Fin 0, Fin 2]"
    "\<not> within_range (Fin 3) [Fin 0, Fin 2]"
    by (simp_all add: within_range_def)
  from interpolate_BC_bounding_box [OF hx hy, of griddata_at_nodes "[Fin 3, Fin 7]" "Fin 1" "Fin 2" "''cubic''"]
    interpolate_BC_bounding_box [OF hx hy, of griddata_at_nodes "[Fin 3, Fin 7]" "Fin (1/2)" "Fin 3" "''cubic''"]
  show ?thesis by (simp add: i griddata_at_nodes_def)
qed

section \<open>Removing double points: order, representatives and idempotence\<close>

lemma compress_first_of_run_Cons:
  "compress (first_of_run (map f (x # xs))) (x # xs) = run_heads f (x # xs)"
proof (induction xs arbitrary: x)
  case Nil
  show ?case by (simp add: compress_def)
next
  case (Cons y zs)
  show ?case
  proof (cases "f x = f y")
    case True
    from Cons.IH [of x] True show ?thesis by (simp add: compress_def)
  next
    case False
    from Cons.IH [of y] False show ?thesis by (auto simp: compress_def)
  qed
qed

lemma compress_first_of_run: "compress (first_of_run (map f xs)) xs = run_heads f xs"
proof (cases xs)
  case Nil
  then show ?thesis by (simp add: compress_def)
next
  case (Cons x xs')
  then show ?thesis by (simp only: compress_first_of_run_Cons)
qed

lemma compress_map: "compress flag (map f xs) = map f (compress flag xs)"
proof -
  have "zip flag (map f xs) = map (\<lambda>(b, x). (b, f x)) (zip flag xs)"
    by (simp add: zip_map2 case_prod_unfold)
  then show ?thesis
    by (simp add: compress_def filter_map comp_def case_prod_unfold)
qed

lemma set_run_heads: "set (run_heads f xs) \<subseteq> set xs"
  by (induction f xs rule: run_heads.induct) auto

lemma keys_run_heads: "f ` set (run_heads f xs) = f ` set xs"
  by (induction f xs rule: run_heads.induct) auto

lemma run_heads_strict:
  fixes f :: "'a \<Rightarrow> 'k::linorder"
  shows "sorted (map f xs) \<Longrightarrow> sorted_wrt (<) (map f (run_heads f xs))"
proof (induction f xs rule: run_heads.induct)
  case (3 f x y zs)
  show ?case
  proof (cases "f x = f y")
    case True
    with 3 show ?thesis by simp
  next
    case False
    with "3.prems" have lt: "f x < f y" by (simp add: less_le)
    have "f x < f z" if "z \<in> set (run_heads f (y # zs))" for z
    proof -
      from that set_run_heads [of f "y # zs"] have "z \<in> set (y # zs)" by blast
      with "3.prems" have "f y \<le> f z" by auto
      with lt show ?thesis by simp
    qed
    with 3 False show ?thesis by auto
  qed
qed simp_all

lemma run_heads_first:
  fixes f :: "'a \<Rightarrow> 'k::linorder"
  shows "sorted (map f xs) \<Longrightarrow> x \<in> set (run_heads f xs) \<Longrightarrow> hd (filter (\<lambda>y. f y = f x) xs) = x"
proof (induction f xs rule: run_heads.induct)
  case (3 f a b zs)
  show ?case
  proof (cases "f a = f b")
    case True
    with "3.prems" have s: "sorted (map f (a # zs))" and m: "x \<in> set (run_heads f (a # zs))" by simp_all
    from "3.IH"(1) [OF True s m] have ih: "hd (filter (\<lambda>y. f y = f x) (a # zs)) = x" .
    show ?thesis
    proof (cases "f a = f x")
      case True
      with ih show ?thesis by simp
    next
      case False
      with ih True show ?thesis by simp
    qed
  next
    case False
    show ?thesis
    proof (cases "x = a")
      case True
      then show ?thesis by simp
    next
      case xa: False
      with "3.prems" False have m: "x \<in> set (run_heads f (b # zs))" by simp
      from "3.prems" have s: "sorted (map f (b # zs))" by simp
      from "3.IH"(2) [OF False s m] have ih: "hd (filter (\<lambda>y. f y = f x) (b # zs)) = x" .
      from m set_run_heads [of f "b # zs"] have "x \<in> set (b # zs)" by blast
      with s have "f b \<le> f x" by auto
      moreover from "3.prems" False have "f a < f b" by (simp add: less_le)
      ultimately have "f a \<noteq> f x" by simp
      with ih show ?thesis by simp
    qed
  qed
qed simp_all

lemma run_heads_distinct_keys: "distinct (map f xs) \<Longrightarrow> run_heads f xs = xs"
  by (induction f xs rule: run_heads.induct) auto

lemma hd_filter_upt_least:
  assumes "hd (filter P [0..<n]) = i" and "i < n" and "P i" and "j < i"
  shows "\<not> P j"
proof
  assume "P j"
  with assms have j: "j \<in> set (filter P [0..<n])" by simp
  then obtain a as where c: "filter P [0..<n] = a # as"
    by (cases "filter P [0..<n]") auto
  have "sorted (filter P [0..<n])" by (simp add: sorted_wrt_filter)
  with c have "sorted (a # as)" by simp
  moreover from j c have "j \<in> set (a # as)" by simp
  ultimately have "a \<le> j" by auto
  moreover from c assms(1) have "a = i" by simp
  ultimately show False using assms(4) by simp
qed

lemma np_unique_index_eq:
  "np_unique_index ar =
     (map (\<lambda>i. ar ! i) (run_heads (\<lambda>i. ar ! i) (argsort ar)), run_heads (\<lambda>i. ar ! i) (argsort ar))"
  by (simp add: np_unique_index_def Let_def compress_map compress_first_of_run)

lemma set_argsort: "set (argsort ar) = {0..<length ar}"
  by (simp add: argsort_def)

lemma sorted_argsort: "sorted (map (\<lambda>i. ar ! i) (argsort ar))"
  by (simp add: argsort_def)

lemma unique_index_first:
  assumes "i \<in> set (snd (np_unique_index ar))"
  shows "i < length ar \<and> (\<forall>j<i. ar ! j \<noteq> ar ! i)"
proof -
  let ?f = "\<lambda>i. ar ! i"
  from assms have m: "i \<in> set (run_heads ?f (argsort ar))" by (simp add: np_unique_index_eq)
  with set_run_heads [of ?f "argsort ar"] have "i \<in> set (argsort ar)" by blast
  then have i: "i < length ar" by (simp add: set_argsort)
  from run_heads_first [OF sorted_argsort m]
  have "hd (filter (\<lambda>j. ar ! j = ar ! i) (argsort ar)) = i" .
  then have h: "hd (filter (\<lambda>j. ar ! j = ar ! i) [0..<length ar]) = i"
    by (simp add: argsort_def sort_key_stable)
  have "\<forall>j<i. ar ! j \<noteq> ar ! i"
    using hd_filter_upt_least [of "\<lambda>j. ar ! j = ar ! i" "length ar" i, OF h i] by blast
  with i show ?thesis by simp
qed

lemma unique_values_strict: "sorted_wrt (<) (fst (np_unique_index ar))"
  by (simp add: np_unique_index_eq run_heads_strict [OF sorted_argsort])

lemma unique_values_set: "set (fst (np_unique_index ar)) = set ar"
proof -
  have "set (fst (np_unique_index ar)) = (\<lambda>i. ar ! i) ` set (argsort ar)"
    by (simp add: np_unique_index_eq keys_run_heads)
  also have "\<dots> = set ar"
    using nth_image [of "length ar" ar] by (simp add: set_argsort)
  finally show ?thesis .
qed

lemma unique_values_indices: "fst (np_unique_index ar) = map (\<lambda>i. ar ! i) (snd (np_unique_index ar))"
  by (simp add: np_unique_index_eq)

lemma unique_index_fixpoint:
  assumes "sorted_wrt (<) u"
  shows "np_unique_index u = (u, [0..<length u])"
proof -
  from assms have s: "sorted u" and d: "distinct u" by (simp_all add: strict_sorted_iff)
  have m: "map (\<lambda>i. u ! i) [0..<length u] = u" by (rule map_nth)
  have "argsort u = [0..<length u]"
    unfolding argsort_def by (rule sort_key_id_if_sorted) (simp add: m s)
  moreover have "run_heads (\<lambda>i. u ! i) [0..<length u] = [0..<length u]"
    by (rule run_heads_distinct_keys) (simp add: m d)
  ultimately show ?thesis by (simp add: np_unique_index_eq m)
qed

lemma np_take_nat_ok:
  assumes "\<forall>i\<in>set idx. i < length a"
  shows "np_take a (map int idx) = Inr (map (\<lambda>i. a ! i) idx)"
proof -
  from assms have "\<forall>i\<in>set (map int idx). in_bounds (length a) i"
    by (auto simp: in_bounds_def)
  then have "np_take a (map int idx) = Inr (map (\<lambda>i. a ! wrap (length a) i) (map int idx))"
    by (rule np_take_ok)
  then show ?thesis by (simp add: comp_def wrap_def)
qed

lemma np_take_nat_bad:
  assumes "\<not> (\<forall>i\<in>set idx. i < length a)"
  shows "np_take a (map int idx) = Inl IndexError"
proof -
  from assms have "\<exists>i\<in>set (map int idx). \<not> in_bounds (length a) i"
    by (auto simp: in_bounds_def)
  then show ?thesis by (rule np_take_bad)
qed

lemma remove_double_points_cases:
  assumes "complex_key x y = Inr keys"
  shows "remove_double_points x y U =
           (if \<forall>i\<in>set (snd (np_unique_index keys)). i < length x \<and> i < length y \<and> i < length U
            then Inr (map (\<lambda>i. x ! i) (snd (np_unique_index keys)),
                      map (\<lambda>i. y ! i) (snd (np_unique_index keys)),
                      map (\<lambda>i. U ! i) (snd (np_unique_index keys)))
            else Inl IndexError)"
proof -
  let ?idx = "snd (np_unique_index keys)"
  show ?thesis
  proof (cases "\<forall>i\<in>set ?idx. i < length x")
    case False
    then show ?thesis
      by (auto simp: remove_double_points_def assms np_take_nat_bad [OF False])
  next
    case x: True
    show ?thesis
    proof (cases "\<forall>i\<in>set ?idx. i < length y")
      case False
      then show ?thesis
        by (auto simp: remove_double_points_def assms np_take_nat_ok [OF x] np_take_nat_bad [OF False])
    next
      case y: True
      show ?thesis
      proof (cases "\<forall>i\<in>set ?idx. i < length U")
        case False
        then show ?thesis
          by (auto simp: remove_double_points_def assms np_take_nat_ok [OF x] np_take_nat_ok [OF y]
                np_take_nat_bad [OF False])
      next
        case True
        with x y show ?thesis
          by (auto simp: remove_double_points_def assms np_take_nat_ok [OF x] np_take_nat_ok [OF y]
                np_take_nat_ok [OF True])
      qed
    qed
  qed
qed

lemma remove_double_points_key_error:
  "complex_key x y = Inl e \<Longrightarrow> remove_double_points x y U = Inl e"
  by (simp add: remove_double_points_def)

lemma complex_key_nth:
  assumes "complex_key x y = Inr keys" and "i < length x" and "i < length y"
  shows "i < length keys \<and> keys ! i = (x ! i, y ! i)"
proof (cases "length x = length y")
  case True
  with assms show ?thesis by (auto simp: complex_key_def)
next
  case neq: False
  show ?thesis
  proof (cases "length x = 1")
    case True
    with assms(2) have i: "i = 0" by simp
    from True have "x \<noteq> []" by auto
    then have "hd x = x ! 0" by (rule hd_conv_nth)
    with assms neq True i show ?thesis by (auto simp: complex_key_def)
  next
    case x1: False
    show ?thesis
    proof (cases "length y = 1")
      case True
      with assms(3) have i: "i = 0" by simp
      from True have "y \<noteq> []" by auto
      then have "hd y = y ! 0" by (rule hd_conv_nth)
      with assms neq x1 True i show ?thesis by (auto simp: complex_key_def)
    next
      case False
      with assms neq x1 show ?thesis by (simp add: complex_key_def)
    qed
  qed
qed

lemma zip_map_same: "zip (map f xs) (map g xs) = map (\<lambda>i. (f i, g i)) xs"
  by (induction xs) simp_all

lemma remove_double_points_result:
  assumes ok: "remove_double_points x y U = Inr (xu, yu, Uu)"
  shows "\<exists>keys. complex_key x y = Inr keys \<and>
           (\<forall>i\<in>set (snd (np_unique_index keys)). i < length x \<and> i < length y \<and> i < length U) \<and>
           xu = map (\<lambda>i. x ! i) (snd (np_unique_index keys)) \<and>
           yu = map (\<lambda>i. y ! i) (snd (np_unique_index keys)) \<and>
           Uu = map (\<lambda>i. U ! i) (snd (np_unique_index keys)) \<and>
           zip xu yu = fst (np_unique_index keys)"
proof (cases "complex_key x y")
  case (Inl e)
  with ok show ?thesis by (simp add: remove_double_points_key_error)
next
  case (Inr keys)
  let ?idx = "snd (np_unique_index keys)"
  from ok remove_double_points_cases [OF Inr, of U]
  have r: "\<forall>i\<in>set ?idx. i < length x \<and> i < length y \<and> i < length U"
    and xu: "xu = map (\<lambda>i. x ! i) ?idx" and yu: "yu = map (\<lambda>i. y ! i) ?idx"
    and Uu: "Uu = map (\<lambda>i. U ! i) ?idx"
    by (auto split: if_splits)
  have "zip xu yu = map (\<lambda>i. (x ! i, y ! i)) ?idx"
    unfolding xu yu by (rule zip_map_same)
  also have "\<dots> = map (\<lambda>i. keys ! i) ?idx"
    using r complex_key_nth [OF Inr] by (intro map_cong) simp_all
  also have "\<dots> = fst (np_unique_index keys)"
    by (simp only: unique_values_indices)
  finally have "zip xu yu = fst (np_unique_index keys)" .
  with Inr r xu yu Uu show ?thesis by blast
qed

text \<open>
  Claim C8. The reduction to unique coordinates is idempotent: applied to its own
  output (coordinates and values), it returns that output unchanged.
\<close>

theorem remove_double_points_idempotent:
  assumes "remove_double_points x y U = Inr (xu, yu, Uu)"
  shows "remove_double_points xu yu Uu = Inr (xu, yu, Uu)"
proof -
  from remove_double_points_result [OF assms] obtain keys where
    xu: "xu = map (\<lambda>i. x ! i) (snd (np_unique_index keys))"
    and yu: "yu = map (\<lambda>i. y ! i) (snd (np_unique_index keys))"
    and Uu: "Uu = map (\<lambda>i. U ! i) (snd (np_unique_index keys))"
    and z: "zip xu yu = fst (np_unique_index keys)" by blast
  from xu yu Uu have len: "length yu = length xu" "length Uu = length xu" by simp_all
  then have k: "complex_key xu yu = Inr (zip xu yu)" by (simp add: complex_key_def)
  have "sorted_wrt (<) (zip xu yu)" unfolding z by (rule unique_values_strict)
  then have "np_unique_index (zip xu yu) = (zip xu yu, [0..<length (zip xu yu)])"
    by (rule unique_index_fixpoint)
  with len have idx: "snd (np_unique_index (zip xu yu)) = [0..<length xu]" by simp
  have mx: "map (\<lambda>i. xu ! i) [0..<length xu] = xu" by (rule map_nth)
  have my: "map (\<lambda>i. yu ! i) [0..<length xu] = yu" using map_nth [of yu] len(1) by simp
  have mU: "map (\<lambda>i. Uu ! i) [0..<length xu] = Uu" using map_nth [of Uu] len(2) by simp
  show ?thesis
    unfolding remove_double_points_cases [OF k] idx mx my mU using len by simp
qed

text \<open>
  Claim C10. The reduction returns the coordinates in the strictly increasing order of
  the key \<^verbatim>\<open>x + 1j*y\<close> (increasing \<open>x\<close>, ties broken by increasing \<open>y\<close>), not in the
  order of the input; every input coordinate is kept once, and the value kept with a
  coordinate is the one at the first position of that coordinate in the flattened
  input.
\<close>

theorem remove_double_points_sorted_first:
  assumes "remove_double_points x y U = Inr (xu, yu, Uu)"
  shows "\<exists>keys. complex_key x y = Inr keys \<and>
           length yu = length xu \<and> length Uu = length xu \<and>
           set (zip xu yu) = set keys \<and>
           (\<forall>j k. j < k \<and> k < length xu \<longrightarrow>
              xu ! j < xu ! k \<or> (xu ! j = xu ! k \<and> yu ! j < yu ! k)) \<and>
           (\<forall>j<length xu. \<exists>i<length keys.
              keys ! i = (xu ! j, yu ! j) \<and> (\<forall>i'<i. keys ! i' \<noteq> keys ! i) \<and>
              i < length U \<and> Uu ! j = U ! i)"
proof -
  from remove_double_points_result [OF assms] obtain keys where
    keys: "complex_key x y = Inr keys"
    and r: "\<forall>i\<in>set (snd (np_unique_index keys)). i < length x \<and> i < length y \<and> i < length U"
    and xu: "xu = map (\<lambda>i. x ! i) (snd (np_unique_index keys))"
    and yu: "yu = map (\<lambda>i. y ! i) (snd (np_unique_index keys))"
    and Uu: "Uu = map (\<lambda>i. U ! i) (snd (np_unique_index keys))"
    and z: "zip xu yu = fst (np_unique_index keys)" by blast
  let ?idx = "snd (np_unique_index keys)"
  from xu yu Uu have len: "length yu = length xu" "length Uu = length xu" "length xu = length ?idx"
    by simp_all
  have st: "set (zip xu yu) = set keys" unfolding z by (rule unique_values_set)
  have strict: "sorted_wrt (<) (zip xu yu)" unfolding z by (rule unique_values_strict)
  have order: "xu ! j < xu ! k \<or> (xu ! j = xu ! k \<and> yu ! j < yu ! k)"
    if "j < k" "k < length xu" for j k
  proof -
    from that len have "zip xu yu ! j < zip xu yu ! k"
      by (intro sorted_wrt_nth_less [OF strict]) simp_all
    with that len show ?thesis by (simp add: prod_less_eq)
  qed
  have first: "\<exists>i<length keys. keys ! i = (xu ! j, yu ! j) \<and> (\<forall>i'<i. keys ! i' \<noteq> keys ! i) \<and>
                 i < length U \<and> Uu ! j = U ! i"
    if "j < length xu" for j
  proof -
    let ?i = "?idx ! j"
    from that len have mem: "?i \<in> set ?idx" by simp
    from unique_index_first [OF mem] have i: "?i < length keys" "\<forall>i'<?i. keys ! i' \<noteq> keys ! ?i"
      by simp_all
    from r mem have b: "?i < length x" "?i < length y" "?i < length U" by simp_all
    from complex_key_nth [OF keys b(1,2)] have "keys ! ?i = (x ! ?i, y ! ?i)" by simp
    with that len have "keys ! ?i = (xu ! j, yu ! j)" by (simp add: xu yu)
    moreover from that len have "Uu ! j = U ! ?i" by (simp add: Uu)
    ultimately show ?thesis using i b(3) by blast
  qed
  from keys len st order first show ?thesis by blast
qed

lemma example_reduction:
  "remove_double_points [1, 0, 1, 0, 0] [0, 0, 0, 5, 0] [Fin 10, Fin 20, Fin 30, Fin 40, Fin 50]
     = Inr ([0, 0, 1], [0, 5, 0], [Fin 20, Fin 40, Fin 10])"
  by code_simp

theorem remove_double_points_idempotent_witness:
  "remove_double_points [0, 0, 1] [0, 5, 0] [Fin 20, Fin 40, Fin 10]
     = Inr ([0, 0, 1], [0, 5, 0], [Fin 20, Fin 40, Fin 10])"
  using remove_double_points_idempotent [OF example_reduction] .

theorem remove_double_points_sorted_first_witness:
  "remove_double_points [1, 0, 1, 0, 0] [0, 0, 0, 5, 0] [Fin 10, Fin 20, Fin 30, Fin 40, Fin 50]
     = Inr ([0, 0, 1], [0, 5, 0], [Fin 20, Fin 40, Fin 10]) \<and>
   (\<exists>keys. complex_key [1, 0, 1, 0, 0] [0, 0, 0, 5, 0] = Inr keys \<and>
      set (zip [0, 0, 1] [0, 5, 0]) = set keys \<and>
      (\<exists>i<length keys. keys ! i = ([0, 0, 1] ! 2, [0, 5, 0] ! 2) \<and>
         [Fin 20, Fin 40, Fin 10] ! 2 = [Fin 10, Fin 20, Fin 30, Fin 40, Fin 50] ! i))"
proof -
  from remove_double_points_sorted_first [OF example_reduction] obtain keys where
    k: "complex_key [1, 0, 1, 0, 0] [0, 0, 0, 5, 0] = Inr keys"
    and s: "set (zip [0, 0, 1] [0, 5, 0]) = set keys"
    and f: "\<forall>j<length [0::real, 0, 1]. \<exists>i<length keys.
              keys ! i = ([0, 0, 1] ! j, [0, 5, 0] ! j) \<and> (\<forall>i'<i. keys ! i' \<noteq> keys ! i) \<and>
              i < length [Fin 10, Fin 20, Fin 30, Fin 40, Fin 50] \<and>
              [Fin 20, Fin 40, Fin 10] ! j = [Fin 10, Fin 20, Fin 30, Fin 40, Fin 50] ! i"
    by blast
  have "(2::nat) < length [0::real, 0, 1]" by simp
  with f have "\<exists>i<length keys. keys ! i = ([0, 0, 1] ! 2, [0, 5, 0] ! 2) \<and>
         (\<forall>i'<i. keys ! i' \<noteq> keys ! i) \<and>
         i < length [Fin 10, Fin 20, Fin 30, Fin 40, Fin 50] \<and>
         [Fin 20, Fin 40, Fin 10] ! 2 = [Fin 10, Fin 20, Fin 30, Fin 40, Fin 50] ! i"
    by blast
  with k s example_reduction show ?thesis by blast
qed

section \<open>The fast evaluator in double precision\<close>

lemma dmul_commute: "dmul x y = dmul y x"
  by (cases x; cases y) (simp_all add: mult.commute add.commute)

lemma dot3_64_gather_row: "dot3_64 (gather_row a r) w = weighted_sum64 a r w"
  by (cases r; cases w) (simp add: dot3_64_def gather_row_def weighted_sum64_def dmul_commute)


lemma map2_dot3_64_gather:
  "length V = length W \<Longrightarrow> map2 dot3_64 (map (gather_row a) V) W = map2 (weighted_sum64 a) V W"
  by (intro nth_equalityI) (simp_all add: dot3_64_gather_row)


lemma fast_interpolate64_ok:
  assumes "\<forall>r\<in>set V. row_in_bounds (length a) r" and "length V = length W"
  shows "fast_interpolate64 a V W = Inr (map2 (weighted_sum64 a) V W)"
  using assms
  by (simp add: fast_interpolate64_def np_take_rows_ok einsum_nj_nj_n64_def map2_dot3_64_gather)





section \<open>Vertices and weights in double precision\<close>

lemma weight_rows64:
  "map hstack_row64 (map2 einsum_jk_k64 (map matrix64 (map T uv)) (map2 sub2_64 uv (map translation64 (map T uv))))
     = map (\<lambda>p. hstack_row64 (einsum_jk_k64 (matrix64 (T p)) (sub2_64 p (translation64 (T p))))) uv"
  by (induction uv) simp_all

lemma hstack_row64_weights:
  "hstack_row64 (einsum_jk_k64 (matrix64 t) (sub2_64 p (translation64 t))) = barycentric_weights64 t p"
  by (cases t; cases p)
     (auto simp: barycentric_weights64_def hstack_row64_def einsum_jk_k64_def row_dot64_def
        sub2_64_def matrix64_def translation64_def Let_def)

lemma construct_vertices64_ok:
  assumes tri: "delaunay xy = Inr tri"
    and len: "length (transform64 tri) = length (simplices64 tri)"
    and loc: "\<forall>p\<in>set uv. in_bounds (length (simplices64 tri)) (find_simplex tri p)"
  shows "construct_vertices64 delaunay find_simplex xy uv =
           Inr (map (\<lambda>p. simplices64 tri ! wrap (length (simplices64 tri)) (find_simplex tri p)) uv,
                map (\<lambda>p. barycentric_weights64
                            (transform64 tri ! wrap (length (simplices64 tri)) (find_simplex tri p)) p) uv)"
proof -
  let ?n = "length (simplices64 tri)"
  let ?simplex = "map (find_simplex tri) uv"
  from loc have b1: "\<forall>i\<in>set ?simplex. in_bounds (length (simplices64 tri)) i" by simp
  from loc len have b2: "\<forall>i\<in>set ?simplex. in_bounds (length (transform64 tri)) i" by simp
  have t1: "np_take (simplices64 tri) ?simplex = Inr (map (\<lambda>p. simplices64 tri ! wrap ?n (find_simplex tri p)) uv)"
    by (simp add: np_take_ok [OF b1] comp_def)
  have t2: "np_take (transform64 tri) ?simplex = Inr (map (\<lambda>p. transform64 tri ! wrap ?n (find_simplex tri p)) uv)"
    by (simp add: np_take_ok [OF b2] len comp_def)
  show ?thesis
    by (simp only: construct_vertices64_def tri t1 t2 Let_def sum.case weight_rows64 hstack_row64_weights)
qed

text \<open>
  Claim C3, as amended. For a located query point, \<^verbatim>\<open>construct_vertices\<close> stores the
  vertex indices of the enclosing triangle and the weights
  \<^verbatim>\<open>delta = query - translation\<close>, \<^verbatim>\<open>(w0, w1) = matrix . delta\<close>, \<^verbatim>\<open>w2 = 1 - (w0 + w1)\<close> of that
  triangle's transform: the first two weights are added and their sum is subtracted
  from 1. Nothing is clamped to [0, 1].
\<close>

theorem construct_vertices64_weight_formula:
  assumes "delaunay xy = Inr tri"
    and "length (transform64 tri) = length (simplices64 tri)"
    and "\<forall>p\<in>set uv. in_bounds (length (simplices64 tri)) (find_simplex tri p)"
    and "q < length uv"
    and "0 \<le> find_simplex tri (uv ! q)"
  shows "\<exists>vertices weights.
           construct_vertices64 delaunay find_simplex xy uv = Inr (vertices, weights) \<and>
           vertices ! q = simplices64 tri ! nat (find_simplex tri (uv ! q)) \<and>
           weights ! q = barycentric_weights64 (transform64 tri ! nat (find_simplex tri (uv ! q))) (uv ! q)"
  using assms
  by (simp add: construct_vertices64_ok
        [where delaunay=delaunay and xy=xy and tri=tri and uv=uv and find_simplex=find_simplex,
         OF assms(1,2,3)] wrap_nat)

lemma square64_build: "square_delaunay64 square_points64 = Inr square_tri64"
  by (simp add: square_delaunay64_def)

lemma square64_lengths: "length (transform64 square_tri64) = length (simplices64 square_tri64)"
  by (simp add: square_tri64_def)

lemma square64_located: "find_simplex_search64 square_tri64 (D 1 (- 54), D 1 (- 54)) = 0"
  by code_simp

lemma square64_outside:
  "find_simplex_search64 square_tri64 (D 1 54, D 1 54) = - 1"
  "find_simplex_search64 square_tri64 (DNaN, DNaN) = - 1"
  by code_simp+

theorem construct_vertices64_weight_formula_witness:
  "\<exists>vertices weights.
     construct_vertices64 square_delaunay64 find_simplex_search64 square_points64 [(D 1 (- 54), D 1 (- 54))]
       = Inr (vertices, weights) \<and>
     vertices ! 0 = (1, 2, 0) \<and>
     weights ! 0 = (D 1 (- 54), D 1 (- 54), D 9007199254740991 (- 53))"
proof -
  have h3: "\<forall>p\<in>set [(D 1 (- 54), D 1 (- 54))].
              in_bounds (length (simplices64 square_tri64)) (find_simplex_search64 square_tri64 p)"
    by (simp add: square64_located) (simp add: in_bounds_def square_tri64_def)
  have h4: "(0::nat) < length [(D 1 (- 54), D 1 (- 54))]" by simp
  have h5: "0 \<le> find_simplex_search64 square_tri64 ([(D 1 (- 54), D 1 (- 54))] ! 0)"
    by (simp add: square64_located)
  have v: "simplices64 square_tri64 ! nat (find_simplex_search64 square_tri64 ([(D 1 (- 54), D 1 (- 54))] ! 0))
             = (1, 2, 0)"
    by (simp add: square64_located) (simp add: square_tri64_def)
  have t: "transform64 square_tri64 ! nat (find_simplex_search64 square_tri64 ([(D 1 (- 54), D 1 (- 54))] ! 0))
             = ((D 1 0, D 0 0), (D 0 0, D 1 0), (D 0 0, D 0 0))"
    by (simp add: square64_located) (simp add: square_tri64_def)
  have w: "barycentric_weights64 ((D 1 0, D 0 0), (D 0 0, D 1 0), (D 0 0, D 0 0)) ([(D 1 (- 54), D 1 (- 54))] ! 0)
             = (D 1 (- 54), D 1 (- 54), D 9007199254740991 (- 53))"
    by code_simp
  from construct_vertices64_weight_formula
    [where delaunay = square_delaunay64 and find_simplex = find_simplex_search64 and q = 0,
     OF square64_build square64_lengths h3 h4 h5]
  show ?thesis unfolding v t w .
qed

text \<open>
  Claim C3 as stated fails in double precision. The query points \<open>(2^-54, 2^-54)\<close> and
  (0.3, 0.6), as binary64 numbers, lie in the first triangle of the unit square, and
  their first two weights are their coordinates. For the first point the program
  stores \<open>w2 = 1 - 2^-53\<close>, while \<^verbatim>\<open>1 - w0 - w1\<close> is 1, each of the two subtractions being
  rounded back to 1. For the second it stores 0.10000000000000009, while
  \<^verbatim>\<open>1 - w0 - w1\<close> is 0.09999999999999998.
\<close>

theorem construct_vertices64_claimed_formula_fails:
  "find_simplex_search64 square_tri64 (D 1 (- 54), D 1 (- 54)) = 0 \<and>
   find_simplex_search64 square_tri64 (D 5404319552844595 (- 54), D 5404319552844595 (- 53)) = 0 \<and>
   construct_vertices64 square_delaunay64 find_simplex_search64 square_points64
       [(D 1 (- 54), D 1 (- 54)), (D 5404319552844595 (- 54), D 5404319552844595 (- 53))]
     = Inr ([(1, 2, 0), (1, 2, 0)],
            [(D 1 (- 54), D 1 (- 54), D 9007199254740991 (- 53)),
             (D 5404319552844595 (- 54), D 5404319552844595 (- 53), D 225179981368525 (- 51))]) \<and>
   claimed_weights64 (transform64 square_tri64 ! 0) (D 1 (- 54), D 1 (- 54))
     = (D 1 (- 54), D 1 (- 54), D 1 0) \<and>
   claimed_weights64 (transform64 square_tri64 ! 0) (D 5404319552844595 (- 54), D 5404319552844595 (- 53))
     = (D 5404319552844595 (- 54), D 5404319552844595 (- 53), D 900719925474099 (- 53)) \<and>
   D 9007199254740991 (- 53) \<noteq> D 1 0 \<and>
   D 225179981368525 (- 51) \<noteq> D 900719925474099 (- 53)"
  by code_simp

text \<open>
  Claim C9, as amended. For a query point outside the triangulation (\<^verbatim>\<open>find_simplex\<close>
  gives -1), \<^verbatim>\<open>construct_vertices\<close> stores the vertex indices of the last triangle and
  the weights computed from the transform of the last triangle as for a located point;
  it writes no sentinel, and \<^verbatim>\<open>fast_interpolate\<close> returns for that point the weighted
  sum of the field values at the corners of the last triangle.
\<close>

theorem construct_vertices64_outside_last_triangle:
  assumes tri: "delaunay xy = Inr tri"
    and len: "length (transform64 tri) = length (simplices64 tri)"
    and ne: "simplices64 tri \<noteq> []"
    and loc: "\<forall>p\<in>set uv. in_bounds (length (simplices64 tri)) (find_simplex tri p)"
    and q: "q < length uv"
    and out: "find_simplex tri (uv ! q) = - 1"
    and idx: "\<forall>r\<in>set (simplices64 tri). row_in_bounds (length field) r"
  shows "\<exists>vertices weights result.
           construct_vertices64 delaunay find_simplex xy uv = Inr (vertices, weights) \<and>
           vertices ! q = last (simplices64 tri) \<and>
           weights ! q = barycentric_weights64 (last (transform64 tri)) (uv ! q) \<and>
           fast_interpolate64 field vertices weights = Inr result \<and>
           length result = length uv \<and>
           result ! q = weighted_sum64 field (last (simplices64 tri)) (weights ! q)"
proof -
  let ?n = "length (simplices64 tri)"
  let ?k = "\<lambda>p. wrap ?n (find_simplex tri p)"
  let ?V = "map (\<lambda>p. simplices64 tri ! ?k p) uv"
  let ?W = "map (\<lambda>p. barycentric_weights64 (transform64 tri ! ?k p) p) uv"
  let ?R = "map2 (weighted_sum64 field) ?V ?W"
  have cv: "construct_vertices64 delaunay find_simplex xy uv = Inr (?V, ?W)"
    by (rule construct_vertices64_ok
        [where delaunay=delaunay and xy=xy and tri=tri and uv=uv and find_simplex=find_simplex,
         OF tri len loc])
  have k: "?k p < ?n" if "p \<in> set uv" for p
    using loc that by (simp add: wrap_less)
  have kq: "?k (uv ! q) = ?n - 1" by (simp add: out wrap_minus_one)
  have lastS: "simplices64 tri ! (?n - 1) = last (simplices64 tri)"
    using ne by (simp add: last_conv_nth)
  have lastT: "transform64 tri ! (?n - 1) = last (transform64 tri)"
    using ne len by (metis last_conv_nth length_0_conv)
  have Vq: "?V ! q = last (simplices64 tri)" using q kq lastS by simp
  have Wq: "?W ! q = barycentric_weights64 (last (transform64 tri)) (uv ! q)" using q kq lastT by simp
  have rows: "\<forall>r\<in>set ?V. row_in_bounds (length field) r"
  proof
    fix r assume "r \<in> set ?V"
    then obtain p where p: "p \<in> set uv" and r: "r = simplices64 tri ! ?k p" by auto
    from k [OF p] have "simplices64 tri ! ?k p \<in> set (simplices64 tri)" by simp
    with idx r show "row_in_bounds (length field) r" by blast
  qed
  have fi: "fast_interpolate64 field ?V ?W = Inr ?R"
    by (rule fast_interpolate64_ok [OF rows]) simp
  have lenR: "length ?R = length uv" by simp
  have "?R ! q = weighted_sum64 field (?V ! q) (?W ! q)" using q by simp
  then have Rq: "?R ! q = weighted_sum64 field (last (simplices64 tri)) (?W ! q)"
    by (simp only: Vq)
  show ?thesis
    using cv Vq Wq fi lenR Rq by blast
qed

theorem construct_vertices64_outside_last_triangle_witness:
  "\<exists>vertices weights result.
     construct_vertices64 square_delaunay64 find_simplex_search64 square_points64 [(D 1 54, D 1 54)]
       = Inr (vertices, weights) \<and>
     vertices ! 0 = (1, 2, 3) \<and>
     weights ! 0 = (D (- 1) 54, D (- 1) 54, D 1 55) \<and>
     fast_interpolate64 [D 1 0, D 1 1, D 3 0, D 1 2] vertices weights = Inr result \<and>
     result ! 0 = D 3 54"
proof -
  have h2: "simplices64 square_tri64 \<noteq> []" by (simp add: square_tri64_def)
  have h3: "\<forall>p\<in>set [(D 1 54, D 1 54)].
              in_bounds (length (simplices64 square_tri64)) (find_simplex_search64 square_tri64 p)"
    by (simp add: square64_outside) (simp add: in_bounds_def square_tri64_def)
  have h4: "(0::nat) < length [(D 1 54, D 1 54)]" by simp
  have h5: "find_simplex_search64 square_tri64 ([(D 1 54, D 1 54)] ! 0) = - 1"
    by (simp add: square64_outside)
  have h6: "\<forall>r\<in>set (simplices64 square_tri64). row_in_bounds (length [D 1 0, D 1 1, D 3 0, D 1 2]) r"
    by (simp add: square_tri64_def row_in_bounds_def in_bounds_def)
  have v: "last (simplices64 square_tri64) = (1, 2, 3)" by (simp add: square_tri64_def)
  have w: "barycentric_weights64 (last (transform64 square_tri64)) ([(D 1 54, D 1 54)] ! 0)
             = (D (- 1) 54, D (- 1) 54, D 1 55)"
    by code_simp
  have s: "weighted_sum64 [D 1 0, D 1 1, D 3 0, D 1 2] (1, 2, 3) (D (- 1) 54, D (- 1) 54, D 1 55) = D 3 54"
    by code_simp
  from construct_vertices64_outside_last_triangle
    [where delaunay = square_delaunay64 and find_simplex = find_simplex_search64 and q = 0,
     OF square64_build square64_lengths h2 h3 h4 h5 h6]
  obtain vertices weights result where
    r: "construct_vertices64 square_delaunay64 find_simplex_search64 square_points64 [(D 1 54, D 1 54)]
          = Inr (vertices, weights)"
       "vertices ! 0 = last (simplices64 square_tri64)"
       "weights ! 0 = barycentric_weights64 (last (transform64 square_tri64)) ([(D 1 54, D 1 54)] ! 0)"
       "fast_interpolate64 [D 1 0, D 1 1, D 3 0, D 1 2] vertices weights = Inr result"
       "result ! 0 = weighted_sum64 [D 1 0, D 1 1, D 3 0, D 1 2] (last (simplices64 square_tri64)) (weights ! 0)"
    by blast
  from r(5) have "result ! 0 = D 3 54" by (simp only: r(3) v w s)
  with r(1,2,3,4) v w show ?thesis by auto
qed

text \<open>
  Claim C9 as stated fails. The query points \<open>(2^54, 2^54)\<close>, \<open>(10^16, 10^16)\<close> and
  (not-a-number, not-a-number) are outside the unit square. For the first two the
  stored weights are \<open>(-2^54, -2^54, 2^55)\<close> and \<open>(-10^16, -10^16, 2 * 10^16)\<close>, which sum
  to 0, and with the finite field values \<open>1, 2^1000, 2^1000, 2^1000\<close> the products
  overflow and the outputs are not-a-number. For the third the stored weights are
  not-a-number.
\<close>

theorem construct_vertices64_outside_sum_and_value:
  "find_simplex_search64 square_tri64 (D 1 54, D 1 54) = - 1 \<and>
   find_simplex_search64 square_tri64 (D 152587890625 16, D 152587890625 16) = - 1 \<and>
   find_simplex_search64 square_tri64 (DNaN, DNaN) = - 1 \<and>
   construct_vertices64 square_delaunay64 find_simplex_search64 square_points64
       [(D 1 54, D 1 54), (D 152587890625 16, D 152587890625 16), (DNaN, DNaN)]
     = Inr ([(1, 2, 3), (1, 2, 3), (1, 2, 3)],
            [(D (- 1) 54, D (- 1) 54, D 1 55),
             (D (- 152587890625) 16, D (- 152587890625) 16, D 152587890625 17),
             (DNaN, DNaN, DNaN)]) \<and>
   sum3_64 (D (- 1) 54, D (- 1) 54, D 1 55) = D 0 0 \<and>
   sum3_64 (D (- 152587890625) 16, D (- 152587890625) 16, D 152587890625 17) = D 0 0 \<and>
   fast_interpolate64 [D 1 0, D 1 1000, D 1 1000, D 1 1000] [(1, 2, 3), (1, 2, 3), (1, 2, 3)]
       [(D (- 1) 54, D (- 1) 54, D 1 55),
        (D (- 152587890625) 16, D (- 152587890625) 16, D 152587890625 17),
        (DNaN, DNaN, DNaN)]
     = Inr [DNaN, DNaN, DNaN]"
  by code_simp

end
